theory Spec2Isabelle
  imports Complex_Main "HOL-Library.Signed_Division" "HOL-Library.Log_Nat"
begin

section \<open>Shared data model\<close>

text \<open>
  Both components keep grid cells and direction vectors as JavaScript objects
  \<^verbatim>\<open>{x, y}\<close> holding small integers; here a cell is the pair \<open>(x, y)\<close>.
\<close>

type_synonym cell = "int \<times> int"

definition unit_dir :: "cell \<Rightarrow> bool" where
  "unit_dir d = (d = (1, 0) \<or> d = (-1, 0) \<or> d = (0, 1) \<or> d = (0, -1))"

definition negation :: "cell \<Rightarrow> cell" where
  "negation d = (- fst d, - snd d)"

text \<open>
  JavaScript's numbers are doubles. The integers of the two components are small and
  exact, but a product \<^verbatim>\<open>Math.random() * n\<close> is rounded. \<open>to_double\<close> rounds a
  rational number to 53 significant bits, to the nearest and to the even one at a tie:
  the double nearest to it, for every magnitude from \<open>2^-1022\<close> up to the
  largest double. (A smaller product is below 1 in the model as in the code, and the
  components only take its floor.) \<open>exponent x\<close> is the \<open>e\<close> with
  \<open>2^e \<le> x < 2^(e+1)\<close>.
\<close>

definition exponent :: "rat \<Rightarrow> int" where
  "exponent x =
     (let (a, b) = quotient_of x; d = bitlen a - bitlen b
      in if 2 powi d \<le> x then d else d - 1)"

definition round_even :: "rat \<Rightarrow> int" where
  "round_even y =
     (let f = \<lfloor>y\<rfloor>; d = y - of_int f
      in if d < 1 / 2 then f else if 1 / 2 < d then f + 1 else if even f then f else f + 1)"

definition to_double :: "rat \<Rightarrow> rat" where
  "to_double x =
     (if x = 0 then 0
      else let u = 2 powi (exponent \<bar>x\<bar> - 52) in of_int (round_even (x / u)) * u)"

text \<open>
  \<^verbatim>\<open>Math.random()\<close> is an input of the model: every function that calls it takes the
  drawn number as an argument (one argument per call). A draw is a double in
  \<open>[0, 1)\<close>.
\<close>

definition draw :: "rat \<Rightarrow> bool" where
  "draw r = (0 \<le> r \<and> r < 1 \<and> to_double r = r)"

text \<open>
  \<^verbatim>\<open>localStorage\<close> holds one key per component. The model keeps the list of the values
  written under that key, newest first: \<^verbatim>\<open>setItem\<close> adds one, \<^verbatim>\<open>getItem\<close> reads
  the newest (\<open>None\<close> for JavaScript's \<^verbatim>\<open>null\<close>). The components only ever write the
  decimal rendering of an integer and parse it back, so the stored strings are kept as the
  integers they denote. Every write is taken to succeed.
\<close>

type_synonym storage = "int list"

definition setItem :: "int \<Rightarrow> storage \<Rightarrow> storage" where
  "setItem v st = v # st"

definition getItem :: "storage \<Rightarrow> int option" where
  "getItem st = (case st of [] \<Rightarrow> None | v # _ \<Rightarrow> Some v)"

text \<open>The persisted high score as both components read it: absent means 0.\<close>

definition stored_high :: "storage \<Rightarrow> int" where
  "stored_high st = (case getItem st of None \<Rightarrow> 0 | Some v \<Rightarrow> v)"

text \<open>
  A tick either ends the run (the early \<^verbatim>\<open>return\<close> of the collision branch) or moves
  the snake.
\<close>

datatype 's outcome = GameOver 's | Moved 's

fun state_of :: "'s outcome \<Rightarrow> 's" where
  "state_of (GameOver s) = s"
| "state_of (Moved s) = s"

fun terminal :: "'s outcome \<Rightarrow> bool" where
  "terminal (GameOver s) = True"
| "terminal (Moved s) = False"

datatype error = TypeError

text \<open>The collision test of both components: some cell has both coordinates of \<open>c\<close>.\<close>

definition hits :: "cell \<Rightarrow> cell list \<Rightarrow> bool" where
  "hits c cells = list_ex (\<lambda>s. fst s = fst c \<and> snd s = snd c) cells"

section \<open>snake-game-chatgpt: SnakeGame.jsx\<close>

definition GRID_ROWS :: int where "GRID_ROWS = 20"
definition GRID_COLS :: int where "GRID_COLS = 20"
definition INITIAL_SPEED :: rat where "INITIAL_SPEED = 6"
definition SPEED_INCREASE :: rat where "SPEED_INCREASE = 1 / 2"
definition INITIAL_SNAKE :: "cell list" where
  "INITIAL_SNAKE = [(9, 9), (8, 9), (7, 9)]"

text \<open>
  The component's React state. \<open>dir\<close> is never \<^verbatim>\<open>null\<close> in the source (it starts as
  \<^verbatim>\<open>{x: 1, y: 0}\<close> and is only ever set to an object), \<open>nextDir\<close> is \<^verbatim>\<open>null\<close> or a
  vector. The speed is a multiple of one half, which JavaScript's numbers hold exactly.
  \<open>localStorage\<close> is the key \<^verbatim>\<open>snake_highscore\<close>.
\<close>

record game =
  snake :: "cell list"
  dir :: cell
  nextDir :: "cell option"
  food :: cell
  speed :: rat
  running :: bool
  score :: int
  highScore :: int
  localStorage :: storage

text \<open>\<^verbatim>\<open>mod(n, m) = ((n % m) + m) % m\<close>; JavaScript's \<^verbatim>\<open>%\<close> truncates towards zero.\<close>

definition mod_js :: "int \<Rightarrow> int \<Rightarrow> int" where
  "mod_js n m = ((n smod m) + m) smod m"

text \<open>
  \<^verbatim>\<open>placeFood\<close>: the free cells in the order of the two loops (\<open>x\<close> outside, \<open>y\<close>
  inside). The source tests membership through the string key \<^verbatim>\<open>`${x},${y}`\<close>, which
  is equal for two cells exactly when both coordinates are. The index is
  \<^verbatim>\<open>Math.floor(Math.random() * free.length)\<close>, with the product rounded to a double;
  for a draw it is below the length (\<open>random_index_less\<close> below), so the read is never
  out of range.
\<close>

definition free_cells :: "cell list \<Rightarrow> cell list" where
  "free_cells snakeArr =
     filter (\<lambda>c. c \<notin> set snakeArr)
       (List.product [0 .. GRID_COLS - 1] [0 .. GRID_ROWS - 1])"

definition random_index :: "rat \<Rightarrow> nat \<Rightarrow> nat" where
  "random_index r n = nat \<lfloor>to_double (r * of_nat n)\<rfloor>"

definition placeFood :: "rat \<Rightarrow> cell list \<Rightarrow> cell" where
  "placeFood r snakeArr =
     (let free = free_cells snakeArr
      in if length free = 0 then (0, 0) else free ! random_index r (length free))"

text \<open>
  \<^verbatim>\<open>trySetDir\<close>. Its first branch, for a \<^verbatim>\<open>dir\<close> that is \<^verbatim>\<open>null\<close>, cannot be taken.
\<close>

definition trySetDir :: "cell \<Rightarrow> game \<Rightarrow> game" where
  "trySetDir newDir s =
     (if fst (dir s) + fst newDir = 0 \<and> snd (dir s) + snd newDir = 0 then s
      else s\<lparr>nextDir := Some newDir\<rparr>)"

definition handleGameOver :: "game \<Rightarrow> game" where
  "handleGameOver s =
     (let newHS = max (highScore s) (score s)
      in s\<lparr>running := False, highScore := newHS,
            localStorage := setItem newHS (localStorage s)\<rparr>)"

text \<open>
  \<^verbatim>\<open>tick\<close>, with its constants \<^verbatim>\<open>currentDir\<close> (\<^verbatim>\<open>nextDir || dir\<close>) and
  \<^verbatim>\<open>newHead\<close> as functions of their own. Reading \<^verbatim>\<open>prev[0].x\<close> of an empty snake
  throws; \<open>r\<close> is the draw of the \<^verbatim>\<open>placeFood\<close> call of the growth branch.
\<close>

definition currentDir :: "game \<Rightarrow> cell" where
  "currentDir s = (case nextDir s of Some d \<Rightarrow> d | None \<Rightarrow> dir s)"

definition newHead :: "cell \<Rightarrow> cell \<Rightarrow> cell" where
  "newHead head d = (mod_js (fst head + fst d) GRID_COLS, mod_js (snd head + snd d) GRID_ROWS)"

definition tick :: "rat \<Rightarrow> game \<Rightarrow> error + game outcome" where
  "tick r s =
     (let s1 = s\<lparr>dir := currentDir s, nextDir := None\<rparr>
      in case snake s of
           [] \<Rightarrow> Inl TypeError
         | head # _ \<Rightarrow>
             let nh = newHead head (currentDir s)
             in if hits nh (snake s)
                then Inr (GameOver (handleGameOver s1))
                else if fst nh = fst (food s) \<and> snd nh = snd (food s)
                then Inr (Moved (s1\<lparr>score := score s + 1,
                                     speed := speed s + SPEED_INCREASE,
                                     food := placeFood r (nh # snake s),
                                     snake := nh # snake s\<rparr>))
                else Inr (Moved (s1\<lparr>snake := butlast (nh # snake s)\<rparr>)))"

definition toggleRunning :: "game \<Rightarrow> game" where
  "toggleRunning s = s\<lparr>running := \<not> running s\<rparr>"

definition resetGame :: "rat \<Rightarrow> game \<Rightarrow> game" where
  "resetGame r s =
     s\<lparr>snake := INITIAL_SNAKE, dir := (1, 0), nextDir := None,
       food := placeFood r INITIAL_SNAKE, speed := INITIAL_SPEED,
       running := True, score := 0\<rparr>"

text \<open>
  The state of the first render: \<open>r\<close> is the draw of the initial \<^verbatim>\<open>placeFood\<close>, the
  high score is \<^verbatim>\<open>Number(localStorage.getItem('snake_highscore') || 0)\<close>.
\<close>

definition initial_game :: "rat \<Rightarrow> storage \<Rightarrow> game" where
  "initial_game r st =
     \<lparr>snake = INITIAL_SNAKE, dir = (1, 0), nextDir = None,
      food = placeFood r INITIAL_SNAKE, speed = INITIAL_SPEED, running = True,
      score = 0, highScore = stored_high st, localStorage = st\<rparr>"

section \<open>snake-game-agent: SnakeGame.jsx\<close>

definition CANVAS_SIZE :: int where "CANVAS_SIZE = 400"
definition SCALE :: int where "SCALE = 20"
definition ROWS :: int where "ROWS = CANVAS_SIZE div SCALE"

text \<open>
  The component's refs (\<open>snakeRef\<close>, \<open>velocityRef\<close>, \<open>appleRef\<close>, \<open>scoreRef\<close>,
  \<open>speedRef\<close>), its React state (\<open>scoreSt\<close>, \<open>highScoreSt\<close>, \<open>runningSt\<close> for
  \<^verbatim>\<open>score\<close>, \<^verbatim>\<open>highScore\<close>, \<^verbatim>\<open>running\<close>) and the key \<^verbatim>\<open>snake_high_score\<close> of
  \<^verbatim>\<open>localStorage\<close> (\<open>storageSt\<close>).

  \<^verbatim>\<open>update\<close> reads the constants \<^verbatim>\<open>score\<close> and \<^verbatim>\<open>highScore\<close> of the render that created
  it, and the animation loop calls the \<^verbatim>\<open>update\<close> of the render in which the effect with
  dependency \<^verbatim>\<open>[running]\<close> last ran. \<open>loopScore\<close> and \<open>loopHighScore\<close> are these two
  constants: the values that \<^verbatim>\<open>score\<close> and \<^verbatim>\<open>highScore\<close> had when the loop was installed.
\<close>

record agent =
  snakeRef :: "cell list"
  velocityRef :: cell
  appleRef :: cell
  scoreRef :: int
  speedRef :: int
  scoreSt :: int
  highScoreSt :: int
  runningSt :: bool
  storageSt :: storage
  loopScore :: int
  loopHighScore :: int

definition randomApple :: "rat \<Rightarrow> rat \<Rightarrow> cell" where
  "randomApple r1 r2 =
     (\<lfloor>to_double (r1 * of_int ROWS)\<rfloor>, \<lfloor>to_double (r2 * of_int ROWS)\<rfloor>)"

definition reset :: "rat \<Rightarrow> rat \<Rightarrow> agent \<Rightarrow> agent" where
  "reset r1 r2 s =
     s\<lparr>snakeRef := [(10, 10)], velocityRef := (1, 0), appleRef := randomApple r1 r2,
       scoreRef := 0, scoreSt := 0, speedRef := 8, runningSt := True\<rparr>"

text \<open>
  The shared prologue of the game-over branch of \<^verbatim>\<open>update\<close> and of the Restart button:
  \<^verbatim>\<open>current = scoreRef.current || score\<close>, then the guarded write. \<open>sc\<close> and \<open>hs\<close>
  are the \<^verbatim>\<open>score\<close> and \<^verbatim>\<open>highScore\<close> constants that the caller's closure holds.
\<close>

definition saveHighScore :: "int \<Rightarrow> int \<Rightarrow> agent \<Rightarrow> agent" where
  "saveHighScore sc hs s =
     (let current = (if scoreRef s \<noteq> 0 then scoreRef s else sc)
      in if current > hs
         then s\<lparr>highScoreSt := current, storageSt := setItem current (storageSt s)\<rparr>
         else s)"

text \<open>
  \<^verbatim>\<open>update\<close>. \<open>r1\<close>, \<open>r2\<close> are the two draws of the one \<^verbatim>\<open>randomApple\<close> call a tick
  can make (in \<^verbatim>\<open>reset\<close> or after eating). On an empty snake the source computes the head
  \<^verbatim>\<open>{x: NaN, y: NaN}\<close>, pushes it and pops it again: nothing changes.
\<close>

definition wrap :: "int \<Rightarrow> int" where
  "wrap c = (let c1 = (if c < 0 then ROWS - 1 else c) in if c1 \<ge> ROWS then 0 else c1)"

definition movedHead :: "cell \<Rightarrow> cell \<Rightarrow> cell" where
  "movedHead h v = (wrap (fst h + fst v), wrap (snd h + snd v))"

definition update :: "rat \<Rightarrow> rat \<Rightarrow> agent \<Rightarrow> agent outcome" where
  "update r1 r2 s =
     (case snakeRef s of
        [] \<Rightarrow> Moved s
      | h # _ \<Rightarrow>
          let head = movedHead h (velocityRef s)
          in if hits head (snakeRef s)
             then GameOver (reset r1 r2 (saveHighScore (loopScore s) (loopHighScore s) s))
             else if fst head = fst (appleRef s) \<and> snd head = snd (appleRef s)
             then let next = scoreSt s + 1
                  in Moved (s\<lparr>snakeRef := head # snakeRef s, scoreSt := next,
                               scoreRef := next, speedRef := 8 + next div 5,
                               appleRef := randomApple r1 r2\<rparr>)
             else Moved (s\<lparr>snakeRef := butlast (head # snakeRef s)\<rparr>))"

text \<open>
  The Restart button: the handler of the current render, so it reads the current state.
  When the game was paused, \<^verbatim>\<open>setRunning(true)\<close> changes \<^verbatim>\<open>running\<close> and the loop is
  installed again, with the constants of the render after the restart.
\<close>

definition restart :: "rat \<Rightarrow> rat \<Rightarrow> agent \<Rightarrow> agent" where
  "restart r1 r2 s =
     (let s1 = reset r1 r2 (saveHighScore (scoreSt s) (highScoreSt s) s)
      in if runningSt s then s1
         else s1\<lparr>loopScore := scoreSt s1, loopHighScore := highScoreSt s1\<rparr>)"

text \<open>
  \<^verbatim>\<open>handleKey\<close>: \<open>v\<close> is read once, then the five tests run in order. Space toggles
  \<^verbatim>\<open>running\<close>, which re-installs the animation loop with the \<^verbatim>\<open>update\<close> of the new render
  (the Pause button does the same).
\<close>

datatype key = ArrowUp | ArrowDown | ArrowLeft | ArrowRight | Space | OtherKey

text \<open>The direction an arrow key asks for.\<close>

definition key_dir :: "key \<Rightarrow> cell option" where
  "key_dir k =
     (case k of ArrowUp \<Rightarrow> Some (0, -1) | ArrowDown \<Rightarrow> Some (0, 1)
      | ArrowLeft \<Rightarrow> Some (-1, 0) | ArrowRight \<Rightarrow> Some (1, 0) | _ \<Rightarrow> None)"

definition toggle :: "agent \<Rightarrow> agent" where
  "toggle s = s\<lparr>runningSt := \<not> runningSt s, loopScore := scoreSt s,
                loopHighScore := highScoreSt s\<rparr>"

definition handleKey :: "key \<Rightarrow> agent \<Rightarrow> agent" where
  "handleKey k s =
     (let v = velocityRef s;
          s1 = (if k = ArrowUp \<and> snd v \<noteq> 1 then s\<lparr>velocityRef := (0, -1)\<rparr> else s);
          s2 = (if k = ArrowDown \<and> snd v \<noteq> -1 then s1\<lparr>velocityRef := (0, 1)\<rparr> else s1);
          s3 = (if k = ArrowLeft \<and> fst v \<noteq> 1 then s2\<lparr>velocityRef := (-1, 0)\<rparr> else s2);
          s4 = (if k = ArrowRight \<and> fst v \<noteq> -1 then s3\<lparr>velocityRef := (1, 0)\<rparr> else s3)
      in if k = Space then toggle s4 else s4)"

text \<open>
  Mounting the component: the first render has \<^verbatim>\<open>highScore = 0\<close>; the first effect
  reads the store (\<^verbatim>\<open>parseInt(getItem(..) || '0')\<close>) and sets the state, the second
  writes the high score of the first render, and again after the render in which it
  changed. The animation loop is installed in the first render.
\<close>

definition initial_agent :: "storage \<Rightarrow> agent" where
  "initial_agent st =
     (let saved = stored_high st;
          st1 = setItem 0 st;
          st2 = (if saved \<noteq> 0 then setItem saved st1 else st1)
      in \<lparr>snakeRef = [(10, 10)], velocityRef = (1, 0), appleRef = (5, 5), scoreRef = 0,
          speedRef = 8, scoreSt = 0, highScoreSt = saved, runningSt = True,
          storageSt = st2, loopScore = 0, loopHighScore = 0\<rparr>)"

section \<open>Runs\<close>

text \<open>
  What can happen to the chatgpt component between two renders: the interval timer
  fires (it is only installed while \<^verbatim>\<open>running\<close>), a key or a swipe asks for a
  direction, Space or the Pause button toggles, R or the Restart button resets.
\<close>

datatype event = Tick rat | SetDir cell | Toggle | Reset rat

fun step :: "event \<Rightarrow> game \<Rightarrow> error + game" where
  "step (Tick r) s =
     (if running s
      then (case tick r s of Inl e \<Rightarrow> Inl e | Inr out \<Rightarrow> Inr (state_of out))
      else Inr s)"
| "step (SetDir d) s = Inr (trySetDir d s)"
| "step Toggle s = Inr (toggleRunning s)"
| "step (Reset r) s = Inr (resetGame r s)"

fun run :: "event list \<Rightarrow> game \<Rightarrow> error + game" where
  "run [] s = Inr s"
| "run (e # es) s = (case step e s of Inl err \<Rightarrow> Inl err | Inr s' \<Rightarrow> run es s')"

text \<open>
  The same for the agent component: an animation frame that is due calls \<^verbatim>\<open>update\<close>
  when \<^verbatim>\<open>running\<close>, a key goes to \<^verbatim>\<open>handleKey\<close>, and there are the two buttons.
\<close>

datatype agent_event = Frame rat rat | Key key | PauseButton | RestartButton rat rat

fun dispatch :: "agent_event \<Rightarrow> agent \<Rightarrow> agent" where
  "dispatch (Frame r1 r2) s = (if runningSt s then state_of (update r1 r2 s) else s)"
| "dispatch (Key k) s = handleKey k s"
| "dispatch PauseButton s = toggle s"
| "dispatch (RestartButton r1 r2) s = restart r1 r2 s"

text \<open>
  After the render that follows an event, the effect with dependency \<^verbatim>\<open>[highScore]\<close>
  writes the high score to the store once more if the event has changed it.
\<close>

definition persistHighScore :: "int \<Rightarrow> agent \<Rightarrow> agent" where
  "persistHighScore previous s =
     (if highScoreSt s \<noteq> previous
      then s\<lparr>storageSt := setItem (highScoreSt s) (storageSt s)\<rparr> else s)"

definition agent_step :: "agent_event \<Rightarrow> agent \<Rightarrow> agent" where
  "agent_step e s = persistHighScore (highScoreSt s) (dispatch e s)"

fun agent_run :: "agent_event list \<Rightarrow> agent \<Rightarrow> agent" where
  "agent_run [] s = s"
| "agent_run (e # es) s = agent_run es (agent_step e s)"

section \<open>Properties of states\<close>

definition in_grid :: "cell \<Rightarrow> bool" where
  "in_grid c = (0 \<le> fst c \<and> fst c < GRID_COLS \<and> 0 \<le> snd c \<and> snd c < GRID_ROWS)"

definition in_board :: "cell \<Rightarrow> bool" where
  "in_board c = (0 \<le> fst c \<and> fst c < ROWS \<and> 0 \<le> snd c \<and> snd c < ROWS)"

text \<open>
  The agent's snake is on the board and moves in one of the four directions; the
  comparisons of \<^verbatim>\<open>update\<close> wrap correctly only in such a state.
\<close>

definition agent_on_board :: "agent \<Rightarrow> bool" where
  "agent_on_board a =
     (snakeRef a \<noteq> [] \<and> list_all in_board (snakeRef a) \<and> unit_dir (velocityRef a))"

text \<open>The score counts the cells the snake has grown by since the run began.\<close>

definition score_matches :: "game \<Rightarrow> bool" where
  "score_matches s = (score s = int (length (snake s)) - int (length INITIAL_SNAKE))"

definition agent_score_matches :: "agent \<Rightarrow> bool" where
  "agent_score_matches s = (scoreSt s = int (length (snakeRef s)) - 1)"

text \<open>The high score held in memory is the one in the store.\<close>

definition mirrors :: "game \<Rightarrow> bool" where
  "mirrors s = (highScore s = stored_high (localStorage s))"

definition agent_mirrors :: "agent \<Rightarrow> bool" where
  "agent_mirrors a = (highScoreSt a = stored_high (storageSt a))"

section \<open>Example states\<close>

text \<open>
  The scenario of the specification: grid 20 by 20, snake \<open>[(9,9), (8,9), (7,9)]\<close>
  moving right, food at \<open>(15, 15)\<close>; and the agent component as mounted with an empty
  store.
\<close>

definition example_game :: game where
  "example_game =
     \<lparr>snake = [(9, 9), (8, 9), (7, 9)], dir = (1, 0), nextDir = None, food = (15, 15),
      speed = 6, running = True, score = 0, highScore = 0, localStorage = []\<rparr>"

definition example_agent :: agent where
  "example_agent =
     \<lparr>snakeRef = [(10, 10)], velocityRef = (1, 0), appleRef = (5, 5), scoreRef = 0,
      speedRef = 8, scoreSt = 0, highScoreSt = 0, runningSt = True, storageSt = [0],
      loopScore = 0, loopHighScore = 0\<rparr>"

text \<open>
  A snake of four cells around a square whose last move was to the left and which has
  been told to go down, so that its head is about to enter the cell of its tail: one
  food eaten (chatgpt, initial length 3), three eaten (agent, initial length 1). The
  stored high score is 5.
\<close>

definition square_game :: game where
  "square_game =
     \<lparr>snake = [(4, 4), (5, 4), (5, 5), (4, 5)], dir = (-1, 0), nextDir = Some (0, 1),
      food = (15, 15), speed = 13 / 2, running = True, score = 1, highScore = 5,
      localStorage = [5]\<rparr>"

definition square_agent :: agent where
  "square_agent =
     \<lparr>snakeRef = [(4, 4), (5, 4), (5, 5), (4, 5)], velocityRef = (0, 1),
      appleRef = (15, 15), scoreRef = 3, speedRef = 8, scoreSt = 3, highScoreSt = 5,
      runningSt = True, storageSt = [5, 0, 5], loopScore = 3, loopHighScore = 5\<rparr>"

text \<open>
  Events that lead to the two states: the chatgpt component, loaded with 5 in the store
  and its first food at \<open>(10, 9)\<close>, eats, goes up to row 5, right around the grid to
  \<open>(5, 5)\<close>, up, left, and is told to go down; the agent component, mounted with 5
  in the store, goes up to row 5, right around the board to its first apple, eats two
  more at \<open>(5, 4)\<close> and \<open>(4, 4)\<close>, is told to go down, and is paused and resumed.
\<close>

definition square_path :: "event list" where
  "square_path =
     [Tick (403 / 512), SetDir (0, -1)] @ replicate 4 (Tick (1 / 2))
     @ [SetDir (1, 0)] @ replicate 15 (Tick (1 / 2))
     @ [SetDir (0, -1), Tick (1 / 2), SetDir (-1, 0), Tick (1 / 2), SetDir (0, 1)]"

definition agent_square_play :: "agent_event list" where
  "agent_square_play =
     [Key ArrowUp] @ replicate 5 (Frame (1 / 2) (1 / 2))
     @ [Key ArrowRight] @ replicate 14 (Frame (1 / 2) (1 / 2))
     @ [Frame (9 / 32) (7 / 32), Key ArrowUp, Frame (7 / 32) (7 / 32), Key ArrowLeft,
        Frame (25 / 32) (25 / 32), Key ArrowDown]"

definition agent_square_path :: "agent_event list" where
  "agent_square_path = agent_square_play @ [Key Space, Key Space]"

text \<open>
  Events that take the mounted agent component to its first apple at \<open>(5, 5)\<close>: up
  for five frames, then left for five frames. The snake then lies on \<open>(5, 5)\<close>,
  \<open>(6, 5)\<close> and moves left.
\<close>

definition approach :: "agent_event list" where
  "approach =
     [Key ArrowUp, Frame (1 / 2) (1 / 2), Frame (1 / 2) (1 / 2), Frame (1 / 2) (1 / 2),
      Frame (1 / 2) (1 / 2), Frame (1 / 2) (1 / 2),
      Key ArrowLeft, Frame (1 / 2) (1 / 2), Frame (1 / 2) (1 / 2), Frame (1 / 2) (1 / 2),
      Frame (1 / 2) (1 / 2), Frame (1 / 2) (1 / 2)]"

section \<open>Rounding to a double\<close>

text \<open>
  The exponent is the right one; a rounded positive number exceeds the exact one by at
  most the relative \<open>2^-53\<close>; below \<open>2^53\<close> rounding never crosses an integer
  downwards. The largest draw is \<open>1 - 2^-53\<close>, so a draw times \<open>n\<close>, rounded, stays
  below \<open>n\<close>.
\<close>

lemma bitlen_powi:
  assumes "0 < a"
  shows "(2::rat) powi (bitlen a - 1) \<le> of_int a \<and> of_int a < (2::rat) powi bitlen a"
proof -
  from assms have b: "1 \<le> bitlen a" by (auto simp: bitlen_alt_def)
  from bitlen_bounds [OF assms]
  have "2 ^ nat (bitlen a - 1) \<le> a" "a < 2 ^ nat (bitlen a)" by simp_all
  then have "(of_int (2 ^ nat (bitlen a - 1)) :: rat) \<le> of_int a"
    "(of_int a :: rat) < of_int (2 ^ nat (bitlen a))"
    by (simp_all only: of_int_le_iff of_int_less_iff)
  then have "(2::rat) ^ nat (bitlen a - 1) \<le> of_int a" "(of_int a :: rat) < 2 ^ nat (bitlen a)"
    by simp_all
  moreover have "(2::rat) powi (bitlen a - 1) = 2 ^ nat (bitlen a - 1)"
    "(2::rat) powi bitlen a = 2 ^ nat (bitlen a)"
    using b by (simp_all add: power_int_def)
  ultimately show ?thesis by simp
qed

lemma exponent_bounds:
  assumes "0 < x"
  shows "2 powi exponent x \<le> x \<and> x < 2 powi (exponent x + 1)"
proof -
  obtain a b where q: "quotient_of x = (a, b)" by (cases "quotient_of x")
  then have b: "0 < b" and x: "x = of_int a / of_int b"
    by (simp_all add: quotient_of_denom_pos quotient_of_div)
  from assms x b have a: "0 < a" by (simp add: zero_less_divide_iff)
  let ?d = "bitlen a - bitlen b"
  from bitlen_powi [OF a] bitlen_powi [OF b]
  have A: "(2::rat) powi (bitlen a - 1) \<le> of_int a" "of_int a < (2::rat) powi bitlen a"
    and B: "(2::rat) powi (bitlen b - 1) \<le> of_int b" "of_int b < (2::rat) powi bitlen b"
    by simp_all
  have pb: "(0::rat) < of_int b" using b by simp
  have up: "x < 2 powi (?d + 1)"
  proof -
    have "of_int a < (2::rat) powi (?d + 1) * 2 powi (bitlen b - 1)"
      using A(2) by (simp add: power_int_add [symmetric])
    also have "\<dots> \<le> 2 powi (?d + 1) * of_int b"
      using B(1) by (simp add: mult_left_mono)
    finally show ?thesis using pb by (simp add: x pos_divide_less_eq)
  qed
  have lo: "2 powi (?d - 1) < x"
  proof -
    have "(2::rat) powi (?d - 1) * of_int b < 2 powi (?d - 1) * 2 powi bitlen b"
      using B(2) by (simp add: mult_strict_left_mono)
    also have "\<dots> = 2 powi (bitlen a - 1)" by (simp add: power_int_add [symmetric])
    also have "\<dots> \<le> of_int a" by (rule A(1))
    finally show ?thesis using pb by (simp add: x pos_less_divide_eq)
  qed
  show ?thesis
  proof (cases "2 powi ?d \<le> x")
    case True
    then have "exponent x = ?d" by (simp add: exponent_def q)
    with True up show ?thesis by simp
  next
    case False
    then have "exponent x = ?d - 1" by (simp add: exponent_def q)
    with False lo show ?thesis by simp
  qed
qed

lemma exponent_unique:
  assumes "2 powi e \<le> x" and "x < 2 powi (e + 1)"
  shows "exponent x = e"
proof -
  have "(0::rat) < 2 powi e" by simp
  with assms(1) have pos: "0 < x" by linarith
  from exponent_bounds [OF pos]
  have l: "2 powi exponent x \<le> x" and u: "x < 2 powi (exponent x + 1)" by simp_all
  have "(2::rat) powi e < 2 powi (exponent x + 1)" using assms(1) u by linarith
  then have 1: "e < exponent x + 1"
    by (metis not_le power_int_increasing one_le_numeral not_less)
  have "(2::rat) powi exponent x < 2 powi (e + 1)" using l assms(2) by linarith
  then have 2: "exponent x < e + 1"
    by (metis not_le power_int_increasing one_le_numeral not_less)
  from 1 2 show ?thesis by linarith
qed

lemma round_even_le: "of_int (round_even y) \<le> y + 1 / 2"
  unfolding round_even_def Let_def by (auto; linarith)

lemma round_even_floor: "\<lfloor>y\<rfloor> \<le> round_even y"
  unfolding round_even_def Let_def by auto

lemma round_even_ge_int:
  assumes "of_int k \<le> y"
  shows "k \<le> round_even y"
proof -
  from assms have "k \<le> \<lfloor>y\<rfloor>" by (simp add: le_floor_iff)
  with round_even_floor [of y] show ?thesis by linarith
qed

lemma to_double_upper:
  assumes "0 < x"
  shows "to_double x \<le> x * (1 + 1 / 2 ^ 53)"
proof -
  let ?e = "exponent x"
  let ?u = "(2::rat) powi (?e - 52)"
  have u: "0 < ?u" by simp
  have "?u * (1 / 2) = 2 powi ?e * (1 / 2 ^ 53)"
    by (simp add: power_int_diff)
  also have "\<dots> \<le> x * (1 / 2 ^ 53)"
    using exponent_bounds [OF assms] by (simp add: mult_right_mono)
  finally have h: "?u * (1 / 2) \<le> x * (1 / 2 ^ 53)" .
  have "to_double x = of_int (round_even (x / ?u)) * ?u"
    using assms by (simp add: to_double_def Let_def)
  also have "\<dots> \<le> (x / ?u + 1 / 2) * ?u"
    using round_even_le [of "x / ?u"] u by (simp add: mult_right_mono)
  also have "\<dots> = x + ?u * (1 / 2)" using u by (simp add: field_simps)
  also have "\<dots> \<le> x + x * (1 / 2 ^ 53)" using h by simp
  finally show ?thesis by (simp add: algebra_simps)
qed

lemma to_double_ge_int:
  assumes "0 \<le> k" and "of_int k \<le> x" and "x < 2 ^ 53"
  shows "of_int k \<le> to_double x"
proof (cases "x = 0")
  case True
  with assms show ?thesis by (simp add: to_double_def)
next
  case False
  with assms have pos: "0 < x" by (smt (verit) of_int_nonneg order_trans le_less)
  let ?e = "exponent x"
  let ?u = "(2::rat) powi (?e - 52)"
  have u: "0 < ?u" by simp
  have td: "to_double x = of_int (round_even (x / ?u)) * ?u"
    using pos by (simp add: to_double_def Let_def)
  show ?thesis
  proof (cases "k = 0")
    case True
    have "0 \<le> x / ?u" using pos u by simp
    then have "0 \<le> round_even (x / ?u)" using round_even_ge_int [of 0 "x / ?u"] by simp
    then show ?thesis using True td u by simp
  next
    case False
    with assms have k1: "1 \<le> k" by simp
    then have x1: "1 \<le> x" using assms(2) by (smt (verit) of_int_1_le_iff order_trans)
    have "(2::rat) powi ?e \<le> x" using exponent_bounds [OF pos] by simp
    with assms(3) have "(2::rat) powi ?e < 2 powi 53" by simp
    then have e53: "?e < 53"
      by (metis not_le power_int_increasing one_le_numeral not_less)
    define j where "j = nat (52 - ?e)"
    have ue: "?u = 1 / 2 ^ j"
      using e53 by (simp add: j_def power_int_def field_simps)
    have "of_int (k * 2 ^ j) \<le> x / ?u"
      using assms(2) by (simp add: ue mult_right_mono)
    then have "k * 2 ^ j \<le> round_even (x / ?u)" by (rule round_even_ge_int)
    then have "(of_int (k * 2 ^ j) :: rat) \<le> of_int (round_even (x / ?u))"
      by (simp only: of_int_le_iff)
    then have "of_int (k * 2 ^ j) * ?u \<le> of_int (round_even (x / ?u)) * ?u"
      using u by (simp add: mult_right_mono)
    then show ?thesis by (simp add: td ue)
  qed
qed

lemma to_double_nonneg:
  assumes "0 \<le> x"
  shows "0 \<le> to_double x"
proof (cases "x = 0")
  case True
  then show ?thesis by (simp add: to_double_def)
next
  case False
  let ?u = "(2::rat) powi (exponent \<bar>x\<bar> - 52)"
  have u: "0 < ?u" by simp
  with assms have "of_int 0 \<le> x / ?u" by simp
  then have "0 \<le> round_even (x / ?u)" by (rule round_even_ge_int)
  with False u show ?thesis by (simp add: to_double_def Let_def)
qed

lemma draw_le:
  assumes "draw r"
  shows "r \<le> 1 - 1 / 2 ^ 53"
proof (cases "r < 1 / 2")
  case True
  then show ?thesis by simp
next
  case False
  from assms have r: "0 \<le> r" "r < 1" "to_double r = r" by (simp_all add: draw_def)
  from False r(2) have "2 powi (-1) \<le> r" "r < 2 powi (-1 + 1)" by simp_all
  then have e: "exponent r = -1" by (rule exponent_unique)
  from False have pos: "0 < r" by simp
  define m where "m = round_even (r / 2 powi (-53))"
  have rm: "r = of_int m * (1 / 2 ^ 53)"
    using r(3) pos e by (simp add: to_double_def Let_def m_def)
  with r(2) have "(of_int m :: rat) < 2 ^ 53" by simp
  then have "(of_int m :: rat) < of_int (2 ^ 53)" by simp
  then have "m < 2 ^ 53" by (simp only: of_int_less_iff)
  then have "m \<le> 2 ^ 53 - 1" by simp
  then have "(of_int m :: rat) \<le> of_int (2 ^ 53 - 1)" by (simp only: of_int_le_iff)
  then show ?thesis by (simp add: rm)
qed

lemma scaled_draw_less:
  assumes "draw r" and "0 < n"
  shows "to_double (r * n) < n"
proof (cases "r * n = 0")
  case True
  with assms(2) show ?thesis by (simp add: to_double_def)
next
  case False
  from assms(1) have r: "0 \<le> r" by (simp add: draw_def)
  with assms(2) False have pos: "0 < r * n" by (simp add: zero_less_mult_iff less_le)
  have "r * n \<le> (1 - 1 / 2 ^ 53) * n"
    using draw_le [OF assms(1)] assms(2) by (simp add: mult_right_mono)
  then have "r * n * (1 + 1 / 2 ^ 53) \<le> (1 - 1 / 2 ^ 53) * n * (1 + 1 / 2 ^ 53)"
    by (rule mult_right_mono) simp
  also have "\<dots> = n * (1 - 1 / 2 ^ 106)" by (simp add: algebra_simps)
  also have "\<dots> < n" using assms(2) by simp
  finally show ?thesis using to_double_upper [OF pos] by linarith
qed

lemma floor_to_double_eq:
  assumes "0 \<le> k" and "of_int k \<le> x" and "x \<le> (of_int k + 1) * (1 - 1 / 2 ^ 53)"
    and "x < 2 ^ 53"
  shows "\<lfloor>to_double x\<rfloor> = k"
proof -
  have lo: "of_int k \<le> to_double x" using assms(1,2,4) by (rule to_double_ge_int)
  have hi: "to_double x < of_int k + 1"
  proof (cases "x = 0")
    case True
    with assms(1) show ?thesis by (simp add: to_double_def)
  next
    case False
    with assms(1,2) have pos: "0 < x" by (smt (verit) of_int_nonneg order_trans le_less)
    have k1: "(0::rat) < of_int k + 1" using assms(1) by simp
    have "x * (1 + 1 / 2 ^ 53) \<le> (of_int k + 1) * (1 - 1 / 2 ^ 53) * (1 + 1 / 2 ^ 53)"
      using assms(3) by (rule mult_right_mono) simp
    also have "\<dots> = (of_int k + 1) * (1 - 1 / 2 ^ 106)" by (simp add: algebra_simps)
    also have "\<dots> < of_int k + 1" using k1 by simp
    finally show ?thesis using to_double_upper [OF pos] by linarith
  qed
  from lo hi show ?thesis by (simp add: floor_unique)
qed

lemma floor_to_double_bounds:
  assumes "0 \<le> x" and "x < 2 ^ 53" and "\<lfloor>to_double x\<rfloor> = k"
  shows "of_int k \<le> x * (1 + 1 / 2 ^ 53) \<and> x < of_int k + 1"
proof
  have "of_int k \<le> to_double x" using assms(3) by (simp add: le_floor_iff [symmetric])
  also have "to_double x \<le> x * (1 + 1 / 2 ^ 53)"
  proof (cases "x = 0")
    case True
    then show ?thesis by (simp add: to_double_def)
  next
    case False
    with assms(1) have "0 < x" by simp
    then show ?thesis by (rule to_double_upper)
  qed
  finally show "of_int k \<le> x * (1 + 1 / 2 ^ 53)" .
next
  have k0: "0 \<le> k" using to_double_nonneg [OF assms(1)] assms(3) by (metis zero_le_floor)
  show "x < of_int k + 1"
  proof (rule ccontr)
    assume "\<not> x < of_int k + 1"
    then have "of_int (k + 1) \<le> x" by simp
    with k0 assms(2) have "of_int (k + 1) \<le> to_double x"
      using to_double_ge_int [of "k + 1" x] by simp
    then have "k + 1 \<le> \<lfloor>to_double x\<rfloor>" by (simp add: le_floor_iff)
    with assms(3) show False by simp
  qed
qed

text \<open>
  Two products that the exact numbers get wrong and the doubles get right: \<open>0.7 * 20\<close>
  is 14 in JavaScript, and so is the rounded product here, though the double nearest
  to \<open>0.7\<close> is just below it.
\<close>

lemma rounded_products:
  "\<lfloor>(3152519739159347 / 4503599627370496 :: rat) * 20\<rfloor> = 13
   \<and> draw (3152519739159347 / 4503599627370496)
   \<and> randomApple (3152519739159347 / 4503599627370496) (1 / 2) = (14, 10)
   \<and> \<lfloor>(3289783103116987 / 4503599627370496 :: rat) * 397\<rfloor> = 289
   \<and> draw (3289783103116987 / 4503599627370496)
   \<and> random_index (3289783103116987 / 4503599627370496) 397 = 290"
  by code_simp

section \<open>The example states are reached\<close>

lemma example_game_is_initial: "example_game = initial_game (403 / 512) []"
  by code_simp

lemma example_agent_is_initial: "example_agent = initial_agent []"
  by (simp add: example_agent_def initial_agent_def stored_high_def getItem_def setItem_def)

lemma food_ahead_is_initial: "example_game\<lparr>food := (10, 9)\<rparr> = initial_game (133 / 256) []"
  by code_simp

lemma apple_ahead_reached:
  "agent_run [RestartButton (9 / 16) (1 / 2)] (initial_agent [])
     = example_agent\<lparr>appleRef := (11, 10)\<rparr>"
  by code_simp

lemma square_game_reached: "run square_path (initial_game (133 / 256) [5]) = Inr square_game"
  by code_simp

lemma square_agent_reached: "agent_run agent_square_path (initial_agent [5]) = square_agent"
  by code_simp

section \<open>Basic facts about the two tick functions\<close>

lemma smod_nonneg: "0 \<le> (a::int) \<Longrightarrow> a smod b = a mod \<bar>b\<bar>"
  by (cases "a = 0") (simp_all add: smod_int_alt_def)

lemma mod_js_eq:
  assumes "0 < m"
  shows "mod_js n m = n mod m"
proof (cases "0 \<le> n")
  case True
  then have a: "n smod m = n mod m" using assms by (simp add: smod_nonneg)
  have "0 \<le> n mod m + m" using assms by (simp add: add_nonneg_nonneg)
  then have "(n mod m + m) smod m = (n mod m + m) mod m" using assms by (simp add: smod_nonneg)
  then show ?thesis by (simp add: mod_js_def a)
next
  case False
  then have a: "n smod m = - ((- n) mod m)" using assms by (simp add: smod_int_alt_def)
  have "(- n) mod m < m" using assms by simp
  then have "0 \<le> - ((- n) mod m) + m" by simp
  then have "(- ((- n) mod m) + m) smod m = (- ((- n) mod m) + m) mod m"
    using assms by (simp add: smod_nonneg)
  also have "\<dots> = (- ((- n) mod m)) mod m" by simp
  also have "\<dots> = n mod m" by (metis mod_minus_eq minus_minus)
  finally show ?thesis by (simp add: mod_js_def a)
qed

lemma hits_iff: "hits c cells = (c \<in> set cells)"
  by (auto simp: hits_def list_ex_iff)

lemma wrap_eq: "-1 \<le> c \<Longrightarrow> c \<le> ROWS \<Longrightarrow> wrap c = c mod ROWS"
  unfolding wrap_def ROWS_def CANVAS_SIZE_def SCALE_def Let_def
  by (simp split: if_splits) presburger

lemma newHead_mod:
  "newHead h d = ((fst h + fst d) mod GRID_COLS, (snd h + snd d) mod GRID_ROWS)"
  by (simp add: newHead_def mod_js_eq GRID_COLS_def GRID_ROWS_def)

lemma movedHead_mod:
  assumes "in_board h" and "unit_dir v"
  shows "movedHead h v = ((fst h + fst v) mod ROWS, (snd h + snd v) mod ROWS)"
proof -
  have "-1 \<le> fst h + fst v" "fst h + fst v \<le> ROWS" "-1 \<le> snd h + snd v" "snd h + snd v \<le> ROWS"
    using assms by (auto simp: in_board_def unit_dir_def)
  then show ?thesis by (simp add: movedHead_def wrap_eq)
qed

lemma same_cell: "(fst a = fst b \<and> snd a = snd b) = (a = b)"
  by (auto simp: prod_eq_iff)

lemma tick_cases:
  assumes "snake s = h # t"
  shows "tick r s =
     (let nh = newHead h (currentDir s); s1 = s\<lparr>dir := currentDir s, nextDir := None\<rparr>
      in if nh \<in> set (snake s) then Inr (GameOver (handleGameOver s1))
         else if nh = food s
         then Inr (Moved (s1\<lparr>score := score s + 1, speed := speed s + SPEED_INCREASE,
                              food := placeFood r (nh # snake s), snake := nh # snake s\<rparr>))
         else Inr (Moved (s1\<lparr>snake := nh # butlast (snake s)\<rparr>)))"
  using assms by (simp add: tick_def Let_def hits_iff same_cell)

lemma update_cases:
  assumes "snakeRef s = h # t"
  shows "update r1 r2 s =
     (let head = movedHead h (velocityRef s)
      in if head \<in> set (snakeRef s)
         then GameOver (reset r1 r2 (saveHighScore (loopScore s) (loopHighScore s) s))
         else if head = appleRef s
         then Moved (s\<lparr>snakeRef := head # snakeRef s, scoreSt := scoreSt s + 1,
                       scoreRef := scoreSt s + 1, speedRef := 8 + (scoreSt s + 1) div 5,
                       appleRef := randomApple r1 r2\<rparr>)
         else Moved (s\<lparr>snakeRef := head # butlast (snakeRef s)\<rparr>))"
  using assms by (simp add: update_def Let_def hits_iff same_cell)

lemma movedHead_in_board:
  assumes "in_board h" and "unit_dir v"
  shows "in_board (movedHead h v)"
  using assms
  by (simp add: movedHead_mod in_board_def ROWS_def CANVAS_SIZE_def SCALE_def)

lemma list_all_butlast: "list_all P xs \<Longrightarrow> list_all P (butlast xs)"
  by (auto simp: list_all_iff dest: in_set_butlastD)

lemma update_on_board:
  assumes "agent_on_board a"
  shows "agent_on_board (state_of (update r1 r2 a))"
proof -
  from assms obtain g u where gu: "snakeRef a = g # u"
    by (cases "snakeRef a") (auto simp: agent_on_board_def)
  from assms gu have g: "in_board g" "list_all in_board u" "unit_dir (velocityRef a)"
    by (simp_all add: agent_on_board_def)
  then have m: "in_board (movedHead g (velocityRef a))" by (simp add: movedHead_in_board)
  have b: "list_all in_board (butlast (g # u))"
    using g(1,2) list_all_butlast [of in_board "g # u"] by simp
  have i: "in_board (10, 10)" "unit_dir (1, 0)"
    by (simp_all add: in_board_def unit_dir_def ROWS_def CANVAS_SIZE_def SCALE_def)
  show ?thesis
    using gu g m b i
    by (auto simp: update_cases Let_def agent_on_board_def reset_def saveHighScore_def)
qed

lemma handleKey_on_board:
  assumes "agent_on_board a"
  shows "agent_on_board (handleKey k a)"
  using assms
  by (cases k) (simp_all add: handleKey_def Let_def toggle_def agent_on_board_def unit_dir_def)

lemma dispatch_on_board:
  assumes "agent_on_board a"
  shows "agent_on_board (dispatch e a)"
proof (cases e)
  case (Frame r1 r2)
  with assms update_on_board show ?thesis by simp
next
  case (Key k)
  with assms handleKey_on_board show ?thesis by simp
next
  case PauseButton
  with assms show ?thesis by (simp add: toggle_def agent_on_board_def)
next
  case (RestartButton r1 r2)
  then show ?thesis
    by (simp add: restart_def reset_def Let_def agent_on_board_def unit_dir_def in_board_def
        ROWS_def CANVAS_SIZE_def SCALE_def)
qed

lemma agent_run_on_board: "agent_on_board a \<Longrightarrow> agent_on_board (agent_run evs a)"
proof (induction evs arbitrary: a)
  case Nil
  then show ?case by simp
next
  case (Cons e evs)
  from dispatch_on_board [OF Cons.prems, of e]
  have "agent_on_board (agent_step e a)"
    by (simp add: agent_step_def persistHighScore_def agent_on_board_def)
  then show ?case using Cons.IH by simp
qed

lemma initial_agent_on_board: "agent_on_board (initial_agent st)"
  by (simp add: initial_agent_def Let_def agent_on_board_def unit_dir_def in_board_def
      ROWS_def CANVAS_SIZE_def SCALE_def)

section \<open>Movement and wraparound\<close>

text \<open>
  C6. The new head is the head plus the direction, each axis taken modulo the grid
  dimension: in the chatgpt component for all integers, in the agent component (which
  wraps by two comparisons) for a head on the board and one of the four unit
  directions, which is what every state has that the mounted component reaches. A head in the last column moving right arrives in column 0 of the same
  row. A tick of a non-empty snake always returns, and it is terminal exactly when the
  new head is a cell of the snake: there is no wall collision. After a non-terminal
  tick the new head is the first cell of the snake.
\<close>

theorem wraparound_new_head:
  "newHead h d = ((fst h + fst d) mod GRID_COLS, (snd h + snd d) mod GRID_ROWS)
   \<and> (0 \<le> y \<and> y < GRID_ROWS \<longrightarrow> newHead (GRID_COLS - 1, y) (1, 0) = (0, y))
   \<and> (in_board h \<and> unit_dir d \<longrightarrow>
        movedHead h d = ((fst h + fst d) mod ROWS, (snd h + snd d) mod ROWS))
   \<and> (0 \<le> y \<and> y < ROWS \<longrightarrow> movedHead (ROWS - 1, y) (1, 0) = (0, y))
   \<and> (snake s = h # t \<longrightarrow>
        (\<exists>out. tick r s = Inr out
           \<and> (terminal out \<longleftrightarrow> newHead h (currentDir s) \<in> set (snake s))
           \<and> (\<not> terminal out \<longrightarrow> hd (snake (state_of out)) = newHead h (currentDir s))))
   \<and> (snakeRef a = g # u \<longrightarrow>
        (terminal (update r1 r2 a) \<longleftrightarrow> movedHead g (velocityRef a) \<in> set (snakeRef a))
        \<and> (\<not> terminal (update r1 r2 a) \<longrightarrow>
             hd (snakeRef (state_of (update r1 r2 a))) = movedHead g (velocityRef a)))
   \<and> agent_on_board (agent_run aevs (initial_agent st))
   \<and> (agent_on_board a \<and> snakeRef a = g # u \<longrightarrow>
        movedHead g (velocityRef a)
          = ((fst g + fst (velocityRef a)) mod ROWS, (snd g + snd (velocityRef a)) mod ROWS))"
proof (intro conjI impI)
  show "newHead h d = ((fst h + fst d) mod GRID_COLS, (snd h + snd d) mod GRID_ROWS)"
    by (rule newHead_mod)
next
  assume "0 \<le> y \<and> y < GRID_ROWS"
  then show "newHead (GRID_COLS - 1, y) (1, 0) = (0, y)"
    by (simp add: newHead_mod GRID_COLS_def GRID_ROWS_def)
next
  assume "in_board h \<and> unit_dir d"
  then show "movedHead h d = ((fst h + fst d) mod ROWS, (snd h + snd d) mod ROWS)"
    by (simp add: movedHead_mod)
next
  assume y: "0 \<le> y \<and> y < ROWS"
  have "in_board (ROWS - 1, y)" "unit_dir (1, 0)"
    using y by (simp_all add: in_board_def unit_dir_def ROWS_def CANVAS_SIZE_def SCALE_def)
  then have "movedHead (ROWS - 1, y) (1, 0) = ((ROWS - 1 + 1) mod ROWS, (y + 0) mod ROWS)"
    using movedHead_mod by fastforce
  then show "movedHead (ROWS - 1, y) (1, 0) = (0, y)"
    using y by simp
next
  assume "snake s = h # t"
  then show "\<exists>out. tick r s = Inr out
      \<and> (terminal out \<longleftrightarrow> newHead h (currentDir s) \<in> set (snake s))
      \<and> (\<not> terminal out \<longrightarrow> hd (snake (state_of out)) = newHead h (currentDir s))"
    by (simp add: tick_cases Let_def)
next
  assume "snakeRef a = g # u"
  then show "terminal (update r1 r2 a) \<longleftrightarrow> movedHead g (velocityRef a) \<in> set (snakeRef a)"
    by (simp add: update_cases Let_def)
next
  assume "snakeRef a = g # u" and "\<not> terminal (update r1 r2 a)"
  then show "hd (snakeRef (state_of (update r1 r2 a))) = movedHead g (velocityRef a)"
    by (simp add: update_cases Let_def split: if_splits)
next
  show "agent_on_board (agent_run aevs (initial_agent st))"
    by (simp add: agent_run_on_board initial_agent_on_board)
next
  assume "agent_on_board a \<and> snakeRef a = g # u"
  then have "in_board g" "unit_dir (velocityRef a)" by (auto simp: agent_on_board_def)
  then show "movedHead g (velocityRef a)
      = ((fst g + fst (velocityRef a)) mod ROWS, (snd g + snd (velocityRef a)) mod ROWS)"
    by (rule movedHead_mod)
qed


text \<open>The witness: a head at \<open>(19, 9)\<close> moving right, in both components.\<close>

theorem wraparound_new_head_witness:
  "newHead (19, 9) (1, 0) = (0, 9) \<and> movedHead (19, 9) (1, 0) = (0, 9)
   \<and> (\<exists>out. tick (1 / 2) ((initial_game (1 / 2) [])\<lparr>snake := [(19, 9), (18, 9), (17, 9)]\<rparr>) = Inr out
         \<and> \<not> terminal out \<and> hd (snake (state_of out)) = (0, 9))
   \<and> \<not> terminal (update (1 / 2) (1 / 2) ((initial_agent [])\<lparr>snakeRef := [(19, 9)]\<rparr>))
   \<and> hd (snakeRef (state_of (update (1 / 2) (1 / 2) ((initial_agent [])\<lparr>snakeRef := [(19, 9)]\<rparr>))))
       = (0, 9)
   \<and> agent_on_board (agent_run [Key ArrowUp, Frame (1 / 2) (1 / 2)] (initial_agent []))"
  using wraparound_new_head [where h = "(19, 9)" and d = "(1, 0)" and y = 9
      and aevs = "[Key ArrowUp, Frame (1 / 2) (1 / 2)]" and st = "[]"
      and s = "(initial_game (1 / 2) [])\<lparr>snake := [(19, 9), (18, 9), (17, 9)]\<rparr>"
      and t = "[(18, 9), (17, 9)]" and r = "1 / 2"
      and a = "(initial_agent [])\<lparr>snakeRef := [(19, 9)]\<rparr>" and g = "(19, 9)" and u = "[]"
      and ?r1.0 = "1 / 2" and ?r2.0 = "1 / 2"]
  by (auto simp add: in_board_def unit_dir_def ROWS_def CANVAS_SIZE_def SCALE_def GRID_COLS_def
      GRID_ROWS_def currentDir_def initial_game_def initial_agent_def Let_def)

section \<open>Growth\<close>

text \<open>
  C4. Growth law: after a non-terminal tick, if the new head was the food cell the snake
  is one cell longer and the score one higher; otherwise both are unchanged. In the
  agent component the score is the React state \<^verbatim>\<open>score\<close>, and \<^verbatim>\<open>scoreRef\<close> follows it.
\<close>

theorem growth_law:
  "(snake s = h # t \<and> tick r s = Inr (Moved s') \<longrightarrow>
      (if newHead h (currentDir s) = food s
       then length (snake s') = length (snake s) + 1 \<and> score s' = score s + 1
       else length (snake s') = length (snake s) \<and> score s' = score s))
   \<and> (snakeRef a = g # u \<and> update r1 r2 a = Moved a' \<longrightarrow>
      (if movedHead g (velocityRef a) = appleRef a
       then length (snakeRef a') = length (snakeRef a) + 1 \<and> scoreSt a' = scoreSt a + 1
              \<and> scoreRef a' = scoreSt a'
       else length (snakeRef a') = length (snakeRef a) \<and> scoreSt a' = scoreSt a
              \<and> scoreRef a' = scoreRef a))"
proof (intro conjI impI)
  assume "snake s = h # t \<and> tick r s = Inr (Moved s')"
  then show "if newHead h (currentDir s) = food s
       then length (snake s') = length (snake s) + 1 \<and> score s' = score s + 1
       else length (snake s') = length (snake s) \<and> score s' = score s"
    by (auto simp: tick_cases Let_def split: if_splits)
next
  assume "snakeRef a = g # u \<and> update r1 r2 a = Moved a'"
  then show "if movedHead g (velocityRef a) = appleRef a
       then length (snakeRef a') = length (snakeRef a) + 1 \<and> scoreSt a' = scoreSt a + 1
              \<and> scoreRef a' = scoreSt a'
       else length (snakeRef a') = length (snakeRef a) \<and> scoreSt a' = scoreSt a
              \<and> scoreRef a' = scoreRef a"
    by (auto simp: update_cases Let_def split: if_splits)
qed

text \<open>
  The witness: the snake of the example eats at \<open>(10, 9)\<close> and then has length 4 and
  score 1, or moves on with length 3 and score 0; the agent's snake likewise.
\<close>

theorem growth_law_witness:
  "(\<exists>s'. tick (1 / 2) (example_game\<lparr>food := (10, 9)\<rparr>) = Inr (Moved s')
        \<and> length (snake s') = 4 \<and> score s' = 1)
   \<and> (\<exists>s'. tick (1 / 2) example_game = Inr (Moved s') \<and> length (snake s') = 3 \<and> score s' = 0)
   \<and> (\<exists>a'. update (1 / 2) (1 / 2) (example_agent\<lparr>appleRef := (11, 10)\<rparr>) = Moved a'
        \<and> length (snakeRef a') = 2 \<and> scoreSt a' = 1 \<and> scoreRef a' = 1)
   \<and> (\<exists>a'. update (1 / 2) (1 / 2) example_agent = Moved a'
        \<and> length (snakeRef a') = 1 \<and> scoreSt a' = 0 \<and> scoreRef a' = 0)"
proof -
  have nh: "newHead (9, 9) (1, 0) = (10, 9)"
    by (simp add: newHead_mod GRID_COLS_def GRID_ROWS_def)
  have mh: "movedHead (10, 10) (1, 0) = (11, 10)"
    by (simp add: movedHead_def wrap_def ROWS_def CANVAS_SIZE_def SCALE_def)
  have 1: "\<exists>s'. tick (1 / 2) (example_game\<lparr>food := (10, 9)\<rparr>) = Inr (Moved s')"
    by (simp add: tick_cases [where h = "(9, 9)" and t = "[(8, 9), (7, 9)]"]
        example_game_def currentDir_def nh Let_def)
  have 2: "\<exists>s'. tick (1 / 2) example_game = Inr (Moved s')"
    by (simp add: tick_cases [where h = "(9, 9)" and t = "[(8, 9), (7, 9)]"]
        example_game_def currentDir_def nh Let_def)
  have 3: "\<exists>a'. update (1 / 2) (1 / 2) (example_agent\<lparr>appleRef := (11, 10)\<rparr>) = Moved a'"
    by (simp add: update_cases [where h = "(10, 10)" and t = "[]"] example_agent_def mh Let_def)
  have 4: "\<exists>a'. update (1 / 2) (1 / 2) example_agent = Moved a'"
    by (simp add: update_cases [where h = "(10, 10)" and t = "[]"] example_agent_def mh Let_def)
  from 1 obtain s1 where s1: "tick (1 / 2) (example_game\<lparr>food := (10, 9)\<rparr>) = Inr (Moved s1)" ..
  from 2 obtain s2 where s2: "tick (1 / 2) example_game = Inr (Moved s2)" ..
  from 3 obtain a1
    where a1: "update (1 / 2) (1 / 2) (example_agent\<lparr>appleRef := (11, 10)\<rparr>) = Moved a1" ..
  from 4 obtain a2 where a2: "update (1 / 2) (1 / 2) example_agent = Moved a2" ..
  have "length (snake s1) = 4 \<and> score s1 = 1"
    using growth_law [where s = "example_game\<lparr>food := (10, 9)\<rparr>" and h = "(9, 9)"
        and t = "[(8, 9), (7, 9)]" and r = "1 / 2" and s' = s1] s1
    by (simp add: example_game_def currentDir_def nh)
  moreover have "length (snake s2) = 3 \<and> score s2 = 0"
    using growth_law [where s = example_game and h = "(9, 9)"
        and t = "[(8, 9), (7, 9)]" and r = "1 / 2" and s' = s2] s2
    by (simp add: example_game_def currentDir_def nh)
  moreover have "length (snakeRef a1) = 2 \<and> scoreSt a1 = 1 \<and> scoreRef a1 = 1"
    using growth_law [where a = "example_agent\<lparr>appleRef := (11, 10)\<rparr>" and g = "(10, 10)"
        and u = "[]" and ?r1.0 = "1 / 2" and ?r2.0 = "1 / 2" and a' = a1] a1
    by (simp add: example_agent_def mh)
  moreover have "length (snakeRef a2) = 1 \<and> scoreSt a2 = 0 \<and> scoreRef a2 = 0"
    using growth_law [where a = example_agent and g = "(10, 10)"
        and u = "[]" and ?r1.0 = "1 / 2" and ?r2.0 = "1 / 2" and a' = a2] a2
    by (simp add: example_agent_def mh)
  ultimately show ?thesis using s1 s2 a1 a2 by simp
qed

section \<open>Self-collision\<close>

text \<open>
  C5. The collision test compares the new head with every cell of the snake as it is
  before the move, the last cell included: a head that moves into the cell of the tail
  ends the run, although a move without growth would vacate that cell. In the chatgpt
  component the tick then stops the game; in the agent component it takes the
  game-over branch of \<^verbatim>\<open>update\<close>.
\<close>

theorem tail_cell_collides:
  "(snake s = h # t \<and> newHead h (currentDir s) \<in> set (snake s) \<longrightarrow>
      (\<exists>s'. tick r s = Inr (GameOver s') \<and> \<not> running s'))
   \<and> (snake s = h # t \<and> newHead h (currentDir s) = last (snake s) \<longrightarrow>
      (\<exists>s'. tick r s = Inr (GameOver s') \<and> \<not> running s'))
   \<and> (snakeRef a = g # u \<and> movedHead g (velocityRef a) \<in> set (snakeRef a) \<longrightarrow>
      terminal (update r1 r2 a))
   \<and> (snakeRef a = g # u \<and> movedHead g (velocityRef a) = last (snakeRef a) \<longrightarrow>
      terminal (update r1 r2 a))"
proof (intro conjI impI)
  assume "snake s = h # t \<and> newHead h (currentDir s) \<in> set (snake s)"
  then show "\<exists>s'. tick r s = Inr (GameOver s') \<and> \<not> running s'"
    by (auto simp: tick_cases Let_def handleGameOver_def)
next
  assume a: "snake s = h # t \<and> newHead h (currentDir s) = last (snake s)"
  then have "newHead h (currentDir s) \<in> set (snake s)"
    by (metis last_in_set list.distinct(1))
  with a show "\<exists>s'. tick r s = Inr (GameOver s') \<and> \<not> running s'"
    by (auto simp: tick_cases Let_def handleGameOver_def)
next
  assume "snakeRef a = g # u \<and> movedHead g (velocityRef a) \<in> set (snakeRef a)"
  then show "terminal (update r1 r2 a)"
    by (auto simp: update_cases Let_def)
next
  assume a: "snakeRef a = g # u \<and> movedHead g (velocityRef a) = last (snakeRef a)"
  then have "movedHead g (velocityRef a) \<in> set (snakeRef a)"
    by (metis last_in_set list.distinct(1))
  with a show "terminal (update r1 r2 a)"
    by (auto simp: update_cases Let_def)
qed

text \<open>The witness: the snake around a square, whose head moves into the cell of its tail.\<close>

theorem tail_cell_collides_witness:
  "newHead (4, 4) (currentDir square_game) = (4, 5) \<and> last (snake square_game) = (4, 5)
   \<and> (\<exists>s'. tick (1 / 2) square_game = Inr (GameOver s') \<and> \<not> running s')
   \<and> movedHead (4, 4) (velocityRef square_agent) = (4, 5)
   \<and> last (snakeRef square_agent) = (4, 5)
   \<and> terminal (update (1 / 2) (1 / 2) square_agent)"
proof -
  have nh: "newHead (4, 4) (currentDir square_game) = (4, 5)"
    by (simp add: newHead_mod currentDir_def square_game_def GRID_COLS_def GRID_ROWS_def)
  have mh: "movedHead (4, 4) (velocityRef square_agent) = (4, 5)"
    by (simp add: movedHead_def wrap_def square_agent_def ROWS_def CANVAS_SIZE_def SCALE_def)
  have sn: "snake square_game = (4, 4) # [(5, 4), (5, 5), (4, 5)]"
    and la: "last (snake square_game) = (4, 5)"
    by (simp_all add: square_game_def)
  have sa: "snakeRef square_agent = (4, 4) # [(5, 4), (5, 5), (4, 5)]"
    and lb: "last (snakeRef square_agent) = (4, 5)"
    by (simp_all add: square_agent_def)
  show ?thesis
    using tail_cell_collides [where s = square_game and h = "(4, 4)"
        and t = "[(5, 4), (5, 5), (4, 5)]" and r = "1 / 2" and a = square_agent
        and g = "(4, 4)" and u = "[(5, 4), (5, 5), (4, 5)]" and ?r1.0 = "1 / 2"
        and ?r2.0 = "1 / 2"] nh mh la lb sn sa
    by simp
qed

section \<open>Score and length\<close>

lemma tick_keeps_score_matches:
  assumes "snake s \<noteq> []" and "score_matches s" and "tick r s = Inr out"
  shows "snake (state_of out) \<noteq> [] \<and> score_matches (state_of out)"
proof -
  from assms(1) obtain h t where ht: "snake s = h # t" by (cases "snake s") auto
  show ?thesis
    using assms(2,3) ht
    by (auto simp: tick_cases Let_def score_matches_def handleGameOver_def split: if_splits)
qed

lemma tick_returns: "snake s \<noteq> [] \<Longrightarrow> \<exists>out. tick r s = Inr out"
  by (cases "snake s") (auto simp: tick_cases Let_def)

lemma step_keeps_score_matches:
  assumes "snake s \<noteq> []" and "score_matches s"
  shows "\<exists>s'. step e s = Inr s' \<and> snake s' \<noteq> [] \<and> score_matches s'"
proof (cases e)
  case (Tick r)
  from tick_returns [OF assms(1)] obtain out where out: "tick r s = Inr out" by blast
  with tick_keeps_score_matches [OF assms out] Tick assms show ?thesis by simp
next
  case (SetDir d)
  with assms show ?thesis by (simp add: trySetDir_def score_matches_def)
next
  case Toggle
  with assms show ?thesis by (simp add: toggleRunning_def score_matches_def)
next
  case (Reset r)
  then show ?thesis by (simp add: resetGame_def score_matches_def INITIAL_SNAKE_def)
qed

lemma run_keeps_score_matches:
  "snake s \<noteq> [] \<Longrightarrow> score_matches s \<Longrightarrow>
   \<exists>s'. run evs s = Inr s' \<and> snake s' \<noteq> [] \<and> score_matches s'"
proof (induction evs arbitrary: s)
  case Nil
  then show ?case by simp
next
  case (Cons e evs)
  from step_keeps_score_matches [OF Cons.prems, of e]
  obtain s1 where s1: "step e s = Inr s1" "snake s1 \<noteq> []" "score_matches s1" by blast
  from Cons.IH [OF s1(2,3)] s1(1) show ?case by simp
qed

lemma update_keeps_score_matches:
  assumes "agent_score_matches a"
  shows "agent_score_matches (state_of (update r1 r2 a))"
proof (cases "snakeRef a")
  case Nil
  with assms show ?thesis by (simp add: update_def)
next
  case (Cons g u)
  with assms show ?thesis
    by (auto simp: update_cases Let_def agent_score_matches_def reset_def)
qed

lemma dispatch_keeps_score_matches:
  assumes "agent_score_matches a"
  shows "agent_score_matches (dispatch e a)"
proof (cases e)
  case (Frame r1 r2)
  with assms update_keeps_score_matches show ?thesis by simp
next
  case (Key k)
  with assms show ?thesis
    by (simp add: handleKey_def toggle_def agent_score_matches_def Let_def)
next
  case PauseButton
  with assms show ?thesis by (simp add: toggle_def agent_score_matches_def)
next
  case (RestartButton r1 r2)
  then show ?thesis by (simp add: restart_def reset_def agent_score_matches_def Let_def)
qed

lemma agent_step_keeps_score_matches:
  assumes "agent_score_matches a"
  shows "agent_score_matches (agent_step e a)"
  using dispatch_keeps_score_matches [OF assms, of e]
  by (simp add: agent_step_def persistHighScore_def agent_score_matches_def)

lemma agent_run_keeps_score_matches:
  "agent_score_matches a \<Longrightarrow> agent_score_matches (agent_run evs a)"
  by (induction evs arbitrary: a) (simp_all add: agent_step_keeps_score_matches)

text \<open>
  C10. In every state that a sequence of events reaches from the state of the first
  render, the score is the length of the snake minus its initial length (3 in the
  chatgpt component, 1 in the agent component, and the run of events never throws). A
  non-terminal tick preserves the relation, and a reset establishes it again with
  score 0.
\<close>

theorem score_is_growth:
  "(\<exists>s. run evs (initial_game r st) = Inr s \<and> score_matches s)
   \<and> (score_matches s \<and> tick q s = Inr (Moved s') \<longrightarrow> score_matches s')
   \<and> score_matches (resetGame q s) \<and> score (resetGame q s) = 0
   \<and> agent_score_matches (agent_run aevs (initial_agent st))
   \<and> (agent_score_matches a \<and> update q1 q2 a = Moved a' \<longrightarrow> agent_score_matches a')
   \<and> agent_score_matches (reset q1 q2 a) \<and> scoreSt (reset q1 q2 a) = 0"
proof (intro conjI impI)
  have "snake (initial_game r st) \<noteq> []" "score_matches (initial_game r st)"
    by (simp_all add: initial_game_def score_matches_def INITIAL_SNAKE_def)
  then show "\<exists>s. run evs (initial_game r st) = Inr s \<and> score_matches s"
    using run_keeps_score_matches by blast
next
  assume a: "score_matches s \<and> tick q s = Inr (Moved s')"
  then have "snake s \<noteq> []" by (auto simp: tick_def)
  with a tick_keeps_score_matches [of s q "Moved s'"] show "score_matches s'" by simp
next
  show "score_matches (resetGame q s)" "score (resetGame q s) = 0"
    by (simp_all add: resetGame_def score_matches_def)
next
  have "agent_score_matches (initial_agent st)"
    by (simp add: initial_agent_def agent_score_matches_def Let_def)
  then show "agent_score_matches (agent_run aevs (initial_agent st))"
    by (rule agent_run_keeps_score_matches)
next
  assume "agent_score_matches a \<and> update q1 q2 a = Moved a'"
  with update_keeps_score_matches [of a q1 q2] show "agent_score_matches a'" by simp
next
  show "agent_score_matches (reset q1 q2 a)" "scoreSt (reset q1 q2 a) = 0"
    by (simp_all add: reset_def agent_score_matches_def)
qed

text \<open>The witness: one eating tick in each component, and a short run of events in each.\<close>

theorem score_is_growth_witness:
  "score_matches (example_game\<lparr>food := (10, 9)\<rparr>)
   \<and> (\<exists>s'. tick (1 / 2) (example_game\<lparr>food := (10, 9)\<rparr>) = Inr (Moved s') \<and> score_matches s')
   \<and> agent_score_matches (example_agent\<lparr>appleRef := (11, 10)\<rparr>)
   \<and> (\<exists>a'. update (1 / 2) (1 / 2) (example_agent\<lparr>appleRef := (11, 10)\<rparr>) = Moved a'
         \<and> agent_score_matches a')
   \<and> (\<exists>s. run [Tick (1 / 2), SetDir (0, 1), Tick (1 / 4), Toggle, Reset (1 / 3)]
              (initial_game (1 / 2) [7]) = Inr s \<and> score_matches s)
   \<and> agent_score_matches
        (agent_run [Frame (1 / 2) (1 / 2), Key ArrowUp, Key ArrowLeft, Frame (1 / 4) (1 / 4)]
           (initial_agent [7]))"
proof -
  let ?s = "example_game\<lparr>food := (10, 9)\<rparr>"
  let ?a = "example_agent\<lparr>appleRef := (11, 10)\<rparr>"
  have nh: "newHead (9, 9) (1, 0) = (10, 9)"
    by (simp add: newHead_mod GRID_COLS_def GRID_ROWS_def)
  have mh: "movedHead (10, 10) (1, 0) = (11, 10)"
    by (simp add: movedHead_def wrap_def ROWS_def CANVAS_SIZE_def SCALE_def)
  have ms: "score_matches ?s"
    by (simp add: score_matches_def example_game_def INITIAL_SNAKE_def)
  have ma: "agent_score_matches ?a"
    by (simp add: agent_score_matches_def example_agent_def)
  have "\<exists>s'. tick (1 / 2) ?s = Inr (Moved s')"
    by (simp add: tick_cases [where h = "(9, 9)" and t = "[(8, 9), (7, 9)]"]
        example_game_def currentDir_def nh Let_def)
  then obtain s1 where s1: "tick (1 / 2) ?s = Inr (Moved s1)" ..
  have "\<exists>a'. update (1 / 2) (1 / 2) ?a = Moved a'"
    by (simp add: update_cases [where h = "(10, 10)" and t = "[]"] example_agent_def mh Let_def)
  then obtain a1 where a1: "update (1 / 2) (1 / 2) ?a = Moved a1" ..
  note w = score_is_growth [where s = ?s and q = "1 / 2" and s' = s1 and a = ?a
      and ?q1.0 = "1 / 2" and ?q2.0 = "1 / 2" and a' = a1 and r = "1 / 2" and st = "[7]"
      and evs = "[Tick (1 / 2), SetDir (0, 1), Tick (1 / 4), Toggle, Reset (1 / 3)]"
      and aevs = "[Frame (1 / 2) (1 / 2), Key ArrowUp, Key ArrowLeft, Frame (1 / 4) (1 / 4)]"]
  from w ms s1 have "score_matches s1" by simp
  moreover from w ma a1 have "agent_score_matches a1" by simp
  ultimately show ?thesis using w ms ma s1 a1 by simp
qed

section \<open>Food placement\<close>

lemma set_grid_cells:
  "set (List.product [0 .. GRID_COLS - 1] [0 .. GRID_ROWS - 1]) = {c. in_grid c}"
  by (auto simp: in_grid_def)

lemma set_free_cells: "set (free_cells sn) = {c. in_grid c \<and> c \<notin> set sn}"
  unfolding free_cells_def set_filter set_grid_cells by auto

lemma distinct_free_cells: "distinct (free_cells sn)"
  by (simp add: free_cells_def distinct_product)

lemma free_cells_empty: "free_cells sn = [] \<longleftrightarrow> (\<forall>c. in_grid c \<longrightarrow> c \<in> set sn)"
proof -
  have "free_cells sn = [] \<longleftrightarrow> set (free_cells sn) = {}" by simp
  then show ?thesis by (auto simp: set_free_cells)
qed

lemma length_free_cells: "length (free_cells sn) \<le> 400"
proof -
  have "length (free_cells sn) \<le> length (List.product [0 .. GRID_COLS - 1] [0 .. GRID_ROWS - 1])"
    unfolding free_cells_def by (rule length_filter_le)
  also have "\<dots> = 400" by (simp add: GRID_COLS_def GRID_ROWS_def)
  finally show ?thesis .
qed

lemma random_index_less:
  assumes "draw r" and "0 < n"
  shows "random_index r n < n"
proof -
  from assms(2) have "(0::rat) < of_nat n" by simp
  with assms(1) have "to_double (r * of_nat n) < of_nat n" by (rule scaled_draw_less)
  then have "\<lfloor>to_double (r * of_nat n)\<rfloor> < int n" by (simp add: floor_less_iff)
  moreover have "0 \<le> r * of_nat n" using assms(1) by (simp add: draw_def)
  then have "0 \<le> \<lfloor>to_double (r * of_nat n)\<rfloor>" by (simp add: to_double_nonneg)
  ultimately show ?thesis unfolding random_index_def by (simp add: nat_less_iff)
qed

lemma random_index_eq:
  assumes "of_nat k \<le> r * of_nat n" and "r * of_nat n \<le> (of_nat k + 1) * (1 - 1 / 2 ^ 53)"
    and "r * of_nat n < 2 ^ 53"
  shows "random_index r n = k"
proof -
  have "\<lfloor>to_double (r * of_nat n)\<rfloor> = int k"
    using assms by (intro floor_to_double_eq) simp_all
  then show ?thesis by (simp add: random_index_def)
qed

lemma random_index_bounds:
  assumes "0 \<le> r * of_nat n" and "r * of_nat n < 2 ^ 53" and "random_index r n = k"
  shows "of_nat k \<le> r * of_nat n * (1 + 1 / 2 ^ 53) \<and> r * of_nat n < of_nat k + 1"
proof -
  have "0 \<le> \<lfloor>to_double (r * of_nat n)\<rfloor>" using assms(1) by (simp add: to_double_nonneg)
  with assms(3) have "\<lfloor>to_double (r * of_nat n)\<rfloor> = int k"
    unfolding random_index_def by linarith
  from floor_to_double_bounds [OF assms(1,2) this] show ?thesis by simp
qed

lemma placeFood_fallback: "free_cells sn = [] \<Longrightarrow> placeFood r sn = (0, 0)"
  by (simp add: placeFood_def)

lemma placeFood_free:
  assumes "draw r" and "free_cells sn \<noteq> []"
  shows "placeFood r sn \<in> set (free_cells sn)"
  using assms random_index_less [of r "length (free_cells sn)"]
  by (simp add: placeFood_def Let_def)

lemma placeFood_in_grid:
  assumes "draw r"
  shows "in_grid (placeFood r sn)"
proof (cases "free_cells sn = []")
  case True
  then show ?thesis
    by (simp add: placeFood_fallback in_grid_def GRID_COLS_def GRID_ROWS_def)
next
  case False
  from placeFood_free [OF assms False] show ?thesis by (simp add: set_free_cells)
qed

lemma draw_times_small:
  assumes "draw r" and "n \<le> 400"
  shows "0 \<le> r * of_nat n \<and> r * of_nat n < 2 ^ 53"
proof -
  from assms(1) have r: "0 \<le> r" "r < 1" by (simp_all add: draw_def)
  have "r * of_nat n \<le> 1 * of_nat n" using r by (intro mult_right_mono) simp_all
  also have "(1::rat) * of_nat n \<le> of_nat 400" using assms(2) by (simp only: mult_1 of_nat_le_iff)
  also have "(of_nat 400 :: rat) < 2 ^ 53" by simp
  finally show ?thesis using r by simp
qed

lemma placeFood_share:
  assumes "draw r" and "k < length (free_cells sn)"
    and "of_nat k \<le> r * of_nat (length (free_cells sn))"
    and "r * of_nat (length (free_cells sn)) \<le> (of_nat k + 1) * (1 - 1 / 2 ^ 53)"
  shows "placeFood r sn = free_cells sn ! k"
proof -
  let ?n = "length (free_cells sn)"
  have "r * of_nat ?n < 2 ^ 53"
    using draw_times_small [OF assms(1) length_free_cells] by simp
  with assms(3,4) have "random_index r ?n = k" by (rule random_index_eq)
  moreover have "0 < ?n" using assms(2) by linarith
  ultimately show ?thesis by (simp add: placeFood_def Let_def)
qed

lemma placeFood_share_only:
  assumes "draw r" and "k < length (free_cells sn)" and "placeFood r sn = free_cells sn ! k"
  shows "of_nat k \<le> r * of_nat (length (free_cells sn)) * (1 + 1 / 2 ^ 53)
    \<and> r * of_nat (length (free_cells sn)) < of_nat k + 1"
proof -
  let ?n = "length (free_cells sn)"
  have pos: "0 < ?n" using assms(2) by linarith
  have lt: "random_index r ?n < ?n" using assms(1) pos by (rule random_index_less)
  have "placeFood r sn = free_cells sn ! random_index r ?n"
    using pos by (simp add: placeFood_def Let_def)
  with assms(3) have "random_index r ?n = k"
    using lt assms(2) distinct_free_cells [of sn] by (simp add: nth_eq_iff_index_eq)
  with draw_times_small [OF assms(1) length_free_cells, of sn] show ?thesis
    by (intro random_index_bounds) simp_all
qed

lemma draw_times_rows:
  assumes "draw r"
  shows "0 \<le> r * 20 \<and> r * 20 < 2 ^ 53 \<and> to_double (r * 20) < 20"
proof -
  from assms have r: "0 \<le> r" "r < 1" by (simp_all add: draw_def)
  have "to_double (r * 20) < 20" using assms by (rule scaled_draw_less) simp
  with r show ?thesis by simp
qed

lemma randomApple_in_board:
  assumes "draw r1" and "draw r2"
  shows "in_board (randomApple r1 r2)"
  using draw_times_rows [OF assms(1)] draw_times_rows [OF assms(2)]
  by (simp add: randomApple_def in_board_def ROWS_def CANVAS_SIZE_def SCALE_def floor_less_iff
      to_double_nonneg)

lemma randomApple_share:
  assumes "draw r1" and "draw r2" and "0 \<le> i" and "0 \<le> j"
    and "of_int i \<le> r1 * 20" and "r1 * 20 \<le> (of_int i + 1) * (1 - 1 / 2 ^ 53)"
    and "of_int j \<le> r2 * 20" and "r2 * 20 \<le> (of_int j + 1) * (1 - 1 / 2 ^ 53)"
  shows "randomApple r1 r2 = (i, j)"
proof -
  have "\<lfloor>to_double (r1 * 20)\<rfloor> = i"
    using assms(3,5,6) draw_times_rows [OF assms(1)] by (intro floor_to_double_eq) simp_all
  moreover have "\<lfloor>to_double (r2 * 20)\<rfloor> = j"
    using assms(4,7,8) draw_times_rows [OF assms(2)] by (intro floor_to_double_eq) simp_all
  ultimately show ?thesis
    by (simp add: randomApple_def ROWS_def CANVAS_SIZE_def SCALE_def)
qed

lemma randomApple_share_only:
  assumes "draw r1" and "draw r2" and "randomApple r1 r2 = (i, j)"
  shows "of_int i \<le> r1 * 20 * (1 + 1 / 2 ^ 53) \<and> r1 * 20 < of_int i + 1
    \<and> of_int j \<le> r2 * 20 * (1 + 1 / 2 ^ 53) \<and> r2 * 20 < of_int j + 1"
proof -
  from assms(3) have f: "\<lfloor>to_double (r1 * 20)\<rfloor> = i" "\<lfloor>to_double (r2 * 20)\<rfloor> = j"
    by (simp_all add: randomApple_def ROWS_def CANVAS_SIZE_def SCALE_def)
  from draw_times_rows [OF assms(1)] have 1: "0 \<le> r1 * 20" "r1 * 20 < 2 ^ 53" by simp_all
  from draw_times_rows [OF assms(2)] have 2: "0 \<le> r2 * 20" "r2 * 20 < 2 ^ 53" by simp_all
  from floor_to_double_bounds [OF 1 f(1)] floor_to_double_bounds [OF 2 f(2)]
  show ?thesis by simp
qed

text \<open>
  The agent's \<^verbatim>\<open>randomApple\<close> does not look at the snake, so whatever cells the snake
  occupies, the whole board included, the draws \<open>1/2\<close>, \<open>1/2\<close> give the cell
  \<open>(10, 10)\<close> and not \<open>(0, 0)\<close>.
\<close>

theorem randomApple_no_fallback:
  "randomApple (1 / 2) (1 / 2) = (10, 10) \<and> randomApple (1 / 2) (1 / 2) \<noteq> (0, 0)"
  by code_simp

text \<open>
  C7, as the code has it. The chatgpt component's \<^verbatim>\<open>placeFood\<close> returns a cell of the
  grid for every snake and every draw in \<open>[0, 1)\<close>: a cell that is not on the snake
  when the snake leaves one free, and the fallback cell \<open>(0, 0)\<close> when the snake
  covers the whole grid. The agent component's \<^verbatim>\<open>randomApple\<close> returns a cell of the
  board for every pair of draws; it has no notion of a free cell and no fallback.
\<close>

theorem food_placement_total:
  "(draw r \<longrightarrow> in_grid (placeFood r sn))
   \<and> (draw r \<and> (\<exists>c. in_grid c \<and> c \<notin> set sn) \<longrightarrow> placeFood r sn \<notin> set sn)
   \<and> ((\<forall>c. in_grid c \<longrightarrow> c \<in> set sn) \<longrightarrow> placeFood r sn = (0, 0))
   \<and> (draw r1 \<and> draw r2 \<longrightarrow> in_board (randomApple r1 r2))"
proof (intro conjI impI)
  assume "draw r"
  then show "in_grid (placeFood r sn)" by (rule placeFood_in_grid)
next
  assume a: "draw r \<and> (\<exists>c. in_grid c \<and> c \<notin> set sn)"
  then have "free_cells sn \<noteq> []" by (auto simp: free_cells_empty)
  with a have "placeFood r sn \<in> set (free_cells sn)" by (simp add: placeFood_free)
  then show "placeFood r sn \<notin> set sn" by (simp add: set_free_cells)
next
  assume "\<forall>c. in_grid c \<longrightarrow> c \<in> set sn"
  then have "free_cells sn = []" by (simp add: free_cells_empty)
  then show "placeFood r sn = (0, 0)" by (rule placeFood_fallback)
next
  assume "draw r1 \<and> draw r2"
  then show "in_board (randomApple r1 r2)" by (simp add: randomApple_in_board)
qed

text \<open>The witness: the initial snake, and a snake that covers the grid.\<close>

theorem food_placement_total_witness:
  "in_grid (placeFood (1 / 2) INITIAL_SNAKE) \<and> placeFood (1 / 2) INITIAL_SNAKE \<notin> set INITIAL_SNAKE
   \<and> placeFood (1 / 2) (List.product [0 .. GRID_COLS - 1] [0 .. GRID_ROWS - 1]) = (0, 0)
   \<and> in_board (randomApple (1 / 2) (1 / 2))"
proof -
  have d: "draw (1 / 2)" by code_simp
  have e: "\<exists>c. in_grid c \<and> c \<notin> set INITIAL_SNAKE"
    by (rule exI [of _ "(0, 0)"]) (simp add: in_grid_def INITIAL_SNAKE_def GRID_COLS_def GRID_ROWS_def)
  have f: "\<forall>c. in_grid c \<longrightarrow> c \<in> set (List.product [0 .. GRID_COLS - 1] [0 .. GRID_ROWS - 1])"
    unfolding set_grid_cells by simp
  from food_placement_total [where r = "1 / 2" and sn = INITIAL_SNAKE and ?r1.0 = "1 / 2"
      and ?r2.0 = "1 / 2"] d e
  have 1: "in_grid (placeFood (1 / 2) INITIAL_SNAKE)"
    and 2: "placeFood (1 / 2) INITIAL_SNAKE \<notin> set INITIAL_SNAKE"
    and 3: "in_board (randomApple (1 / 2) (1 / 2))"
    by blast+
  from food_placement_total
      [where r = "1 / 2" and sn = "List.product [0 .. GRID_COLS - 1] [0 .. GRID_ROWS - 1]"] f
  have "placeFood (1 / 2) (List.product [0 .. GRID_COLS - 1] [0 .. GRID_ROWS - 1]) = (0, 0)"
    by blast
  with 1 2 3 show ?thesis by blast
qed

text \<open>
  In the agent component the snake at \<open>(10, 10)\<close> eats the apple at \<open>(11, 10)\<close>, and
  the draws \<open>9/16\<close>, \<open>1/2\<close> put the new apple on \<open>(11, 10)\<close> again, under the
  new head.
\<close>

theorem apple_on_snake:
  "\<not> terminal (update (9 / 16) (1 / 2) (example_agent\<lparr>appleRef := (11, 10)\<rparr>))
   \<and> appleRef (state_of (update (9 / 16) (1 / 2) (example_agent\<lparr>appleRef := (11, 10)\<rparr>)))
       \<in> set (snakeRef (state_of (update (9 / 16) (1 / 2) (example_agent\<lparr>appleRef := (11, 10)\<rparr>))))"
proof -
  have mh: "movedHead (10, 10) (1, 0) = (11, 10)"
    by (simp add: movedHead_def wrap_def ROWS_def CANVAS_SIZE_def SCALE_def)
  have ra: "randomApple (9 / 16) (1 / 2) = (11, 10)"
    by code_simp
  show ?thesis
    by (simp add: update_cases [where h = "(10, 10)" and t = "[]"] example_agent_def mh ra Let_def)
qed

text \<open>
  C2, as the code has it. In the chatgpt component, after a non-terminal tick from a
  state whose food is not on the snake, the food is not on the resulting snake,
  provided the resulting snake leaves a cell of the grid free (when it covers the grid
  the new food is the fallback cell, which the snake occupies). After eating, the new
  food is \<^verbatim>\<open>placeFood\<close> of the grown snake: one of the \<open>n\<close> free cells, which are all
  different and are exactly the cells of the grid that are not on the snake. The cell
  number \<open>k\<close> is chosen by every draw \<open>r\<close> with \<open>k \<le> r n \<le> (k + 1) (1 - 2^-53)\<close>, and
  only by draws with \<open>k \<le> r n (1 + 2^-53)\<close> and \<open>r n < k + 1\<close>: the free cells have
  equal shares of the draws up to the rounding of the product \<open>r n\<close> to a double. In
  the agent component the new apple is a cell of the board chosen without regard to the
  snake, each coordinate \<open>i\<close> by every draw with \<open>i \<le> 20 r \<le> (i + 1) (1 - 2^-53)\<close> and
  only by draws with \<open>i \<le> 20 r (1 + 2^-53)\<close> and \<open>20 r < i + 1\<close>; an apple that stays
  where it is and was not on the snake is not on the moved snake.
\<close>

theorem food_off_snake:
  "(draw r \<and> snake s = h # t \<and> tick r s = Inr (Moved s') \<and> food s \<notin> set (snake s)
      \<and> (\<exists>c. in_grid c \<and> c \<notin> set (snake s')) \<longrightarrow> food s' \<notin> set (snake s'))
   \<and> (snake s = h # t \<and> tick r s = Inr (Moved s') \<and> newHead h (currentDir s) = food s \<longrightarrow>
        food s' = placeFood r (snake s'))
   \<and> (draw r \<and> k < length (free_cells sn)
        \<and> of_nat k \<le> r * of_nat (length (free_cells sn))
        \<and> r * of_nat (length (free_cells sn)) \<le> (of_nat k + 1) * (1 - 1 / 2 ^ 53) \<longrightarrow>
        placeFood r sn = free_cells sn ! k)
   \<and> (draw r \<and> k < length (free_cells sn) \<and> placeFood r sn = free_cells sn ! k \<longrightarrow>
        of_nat k \<le> r * of_nat (length (free_cells sn)) * (1 + 1 / 2 ^ 53)
        \<and> r * of_nat (length (free_cells sn)) < of_nat k + 1)
   \<and> distinct (free_cells sn) \<and> set (free_cells sn) = {c. in_grid c \<and> c \<notin> set sn}
   \<and> (snakeRef a = g # u \<and> update r1 r2 a = Moved a' \<and> movedHead g (velocityRef a) = appleRef a
        \<longrightarrow> appleRef a' = randomApple r1 r2)
   \<and> (snakeRef a = g # u \<and> update r1 r2 a = Moved a' \<and> movedHead g (velocityRef a) \<noteq> appleRef a
        \<and> appleRef a \<notin> set (snakeRef a) \<longrightarrow> appleRef a' \<notin> set (snakeRef a'))
   \<and> (draw r1 \<and> draw r2 \<longrightarrow> in_board (randomApple r1 r2))
   \<and> (draw r1 \<and> draw r2 \<and> 0 \<le> i \<and> 0 \<le> j
        \<and> of_int i \<le> r1 * 20 \<and> r1 * 20 \<le> (of_int i + 1) * (1 - 1 / 2 ^ 53)
        \<and> of_int j \<le> r2 * 20 \<and> r2 * 20 \<le> (of_int j + 1) * (1 - 1 / 2 ^ 53) \<longrightarrow>
        randomApple r1 r2 = (i, j))
   \<and> (draw r1 \<and> draw r2 \<and> randomApple r1 r2 = (i, j) \<longrightarrow>
        of_int i \<le> r1 * 20 * (1 + 1 / 2 ^ 53) \<and> r1 * 20 < of_int i + 1
        \<and> of_int j \<le> r2 * 20 * (1 + 1 / 2 ^ 53) \<and> r2 * 20 < of_int j + 1)"
proof -
  have 1: "food s' \<notin> set (snake s')"
    if a: "draw r \<and> snake s = h # t \<and> tick r s = Inr (Moved s') \<and> food s \<notin> set (snake s)
      \<and> (\<exists>c. in_grid c \<and> c \<notin> set (snake s'))"
  proof (cases "newHead h (currentDir s) = food s")
    case True
    let ?nh = "newHead h (currentDir s)"
    from True a have s': "snake s' = ?nh # snake s" "food s' = placeFood r (?nh # snake s)"
      by (auto simp: tick_cases Let_def split: if_splits)
    from a s' have "\<exists>c. in_grid c \<and> c \<notin> set (?nh # snake s)" by metis
    then have "free_cells (?nh # snake s) \<noteq> []" unfolding free_cells_empty by blast
    with a have "placeFood r (?nh # snake s) \<in> set (free_cells (?nh # snake s))"
      by (simp add: placeFood_free)
    with s' show ?thesis by (simp add: set_free_cells)
  next
    case False
    let ?nh = "newHead h (currentDir s)"
    from False a have s': "snake s' = ?nh # butlast (snake s)" "food s' = food s"
      by (auto simp: tick_cases Let_def split: if_splits)
    from a have "food s \<notin> set (butlast (snake s))" by (meson in_set_butlastD)
    with False s' show ?thesis by auto
  qed
  have 2: "food s' = placeFood r (snake s')"
    if "snake s = h # t \<and> tick r s = Inr (Moved s') \<and> newHead h (currentDir s) = food s"
    using that by (auto simp: tick_cases Let_def split: if_splits)
  have 3: "placeFood r sn = free_cells sn ! k"
    if "draw r \<and> k < length (free_cells sn)
        \<and> of_nat k \<le> r * of_nat (length (free_cells sn))
        \<and> r * of_nat (length (free_cells sn)) \<le> (of_nat k + 1) * (1 - 1 / 2 ^ 53)"
    using that placeFood_share [of r k sn] by blast
  have 4: "of_nat k \<le> r * of_nat (length (free_cells sn)) * (1 + 1 / 2 ^ 53)
        \<and> r * of_nat (length (free_cells sn)) < of_nat k + 1"
    if "draw r \<and> k < length (free_cells sn) \<and> placeFood r sn = free_cells sn ! k"
    using that placeFood_share_only [of r k sn] by blast
  have 5: "appleRef a' = randomApple r1 r2"
    if "snakeRef a = g # u \<and> update r1 r2 a = Moved a' \<and> movedHead g (velocityRef a) = appleRef a"
    using that by (auto simp: update_cases Let_def split: if_splits)
  have 6: "appleRef a' \<notin> set (snakeRef a')"
    if a: "snakeRef a = g # u \<and> update r1 r2 a = Moved a'
        \<and> movedHead g (velocityRef a) \<noteq> appleRef a \<and> appleRef a \<notin> set (snakeRef a)"
  proof -
    from a have s': "snakeRef a' = movedHead g (velocityRef a) # butlast (snakeRef a)"
      "appleRef a' = appleRef a"
      by (auto simp: update_cases Let_def split: if_splits)
    from a have "appleRef a \<notin> set (butlast (snakeRef a))" by (meson in_set_butlastD)
    with a s' show ?thesis by auto
  qed
  have 7: "in_board (randomApple r1 r2)" if "draw r1 \<and> draw r2"
    using that by (simp add: randomApple_in_board)
  have 8: "randomApple r1 r2 = (i, j)"
    if "draw r1 \<and> draw r2 \<and> 0 \<le> i \<and> 0 \<le> j
        \<and> of_int i \<le> r1 * 20 \<and> r1 * 20 \<le> (of_int i + 1) * (1 - 1 / 2 ^ 53)
        \<and> of_int j \<le> r2 * 20 \<and> r2 * 20 \<le> (of_int j + 1) * (1 - 1 / 2 ^ 53)"
    using that randomApple_share [of r1 r2 i j] by blast
  have 9: "of_int i \<le> r1 * 20 * (1 + 1 / 2 ^ 53) \<and> r1 * 20 < of_int i + 1
        \<and> of_int j \<le> r2 * 20 * (1 + 1 / 2 ^ 53) \<and> r2 * 20 < of_int j + 1"
    if "draw r1 \<and> draw r2 \<and> randomApple r1 r2 = (i, j)"
    using that randomApple_share_only [of r1 r2 i j] by blast
  from 1 2 3 4 5 6 7 8 9 distinct_free_cells [of sn] set_free_cells [of sn]
  show ?thesis by blast
qed

text \<open>
  The witness: the example snake eats at \<open>(10, 9)\<close>; the draw \<open>1/2\<close> picks cell
  number 198 of the 397 cells the initial snake leaves free; the agent's snake eats, or
  moves on, and the draws \<open>1/2\<close>, \<open>1/2\<close> give the apple \<open>(10, 10)\<close>.
\<close>

theorem food_off_snake_witness:
  "(\<exists>s'. tick (1 / 2) (example_game\<lparr>food := (10, 9)\<rparr>) = Inr (Moved s')
        \<and> food s' \<notin> set (snake s') \<and> food s' = placeFood (1 / 2) (snake s'))
   \<and> placeFood (1 / 2) INITIAL_SNAKE = free_cells INITIAL_SNAKE ! 198
   \<and> (397 :: rat) / 2 < 199
   \<and> (\<exists>a'. update (1 / 2) (1 / 2) (example_agent\<lparr>appleRef := (11, 10)\<rparr>) = Moved a'
        \<and> appleRef a' = randomApple (1 / 2) (1 / 2))
   \<and> (\<exists>a'. update (1 / 2) (1 / 2) example_agent = Moved a' \<and> appleRef a' \<notin> set (snakeRef a'))
   \<and> in_board (randomApple (1 / 2) (1 / 2))
   \<and> randomApple (1 / 2) (1 / 2) = (10, 10)"
proof -
  let ?s = "example_game\<lparr>food := (10, 9)\<rparr>"
  let ?a = "example_agent\<lparr>appleRef := (11, 10)\<rparr>"
  have d: "draw (1 / 2)" by code_simp
  have nh: "newHead (9, 9) (currentDir ?s) = (10, 9)"
    by (simp add: newHead_mod currentDir_def example_game_def GRID_COLS_def GRID_ROWS_def)
  have mh: "movedHead (10, 10) (1, 0) = (11, 10)"
    by (simp add: movedHead_def wrap_def ROWS_def CANVAS_SIZE_def SCALE_def)
  have sn: "snake ?s = (9, 9) # [(8, 9), (7, 9)]" "food ?s \<notin> set (snake ?s)" "food ?s = (10, 9)"
    by (simp_all add: example_game_def)
  have "\<exists>s'. tick (1 / 2) ?s = Inr (Moved s') \<and> snake s' = [(10, 9), (9, 9), (8, 9), (7, 9)]"
    by (simp add: tick_cases [where h = "(9, 9)" and t = "[(8, 9), (7, 9)]"] nh sn Let_def)
  then obtain s1 where s1: "tick (1 / 2) ?s = Inr (Moved s1)"
    and sn1: "snake s1 = [(10, 9), (9, 9), (8, 9), (7, 9)]" by blast
  have free: "\<exists>c. in_grid c \<and> c \<notin> set (snake s1)"
    by (rule exI [of _ "(0, 0)"]) (simp add: sn1 in_grid_def GRID_COLS_def GRID_ROWS_def)
  have len: "length (free_cells INITIAL_SNAKE) = 397" by code_simp
  have sa: "snakeRef ?a = (10, 10) # []" "velocityRef ?a = (1, 0)" "appleRef ?a = (11, 10)"
    "snakeRef example_agent = (10, 10) # []" "velocityRef example_agent = (1, 0)"
    "appleRef example_agent = (5, 5)"
    by (simp_all add: example_agent_def)
  have "\<exists>a'. update (1 / 2) (1 / 2) ?a = Moved a'"
    by (simp add: update_cases [where h = "(10, 10)" and t = "[]"] sa mh Let_def)
  then obtain a1 where a1: "update (1 / 2) (1 / 2) ?a = Moved a1" ..
  have "\<exists>a'. update (1 / 2) (1 / 2) example_agent = Moved a'"
    by (simp add: update_cases [where h = "(10, 10)" and t = "[]"] sa mh Let_def)
  then obtain a2 where a2: "update (1 / 2) (1 / 2) example_agent = Moved a2" ..
  note w1 = food_off_snake [where r = "1 / 2" and s = ?s and h = "(9, 9)" and t = "[(8, 9), (7, 9)]"
      and s' = s1 and sn = INITIAL_SNAKE and k = 198 and a = ?a and g = "(10, 10)" and u = "[]"
      and ?r1.0 = "1 / 2" and ?r2.0 = "1 / 2" and a' = a1 and i = 10 and j = 10]
  note w2 = food_off_snake [where a = example_agent and g = "(10, 10)" and u = "[]"
      and ?r1.0 = "1 / 2" and ?r2.0 = "1 / 2" and a' = a2 and i = 10 and j = 10]
  have nf: "newHead (9, 9) (currentDir ?s) = food ?s" using nh sn(3) by simp
  have k: "(198 :: nat) < length (free_cells INITIAL_SNAKE)"
    and iv: "of_nat 198 \<le> (1 / 2 :: rat) * of_nat (length (free_cells INITIAL_SNAKE))"
      "(1 / 2 :: rat) * of_nat (length (free_cells INITIAL_SNAKE)) \<le> (of_nat 198 + 1) * (1 - 1 / 2 ^ 53)"
    by (simp_all add: len)
  have ij: "(0::int) \<le> 10" "of_int 10 \<le> (1 / 2 :: rat) * 20"
    "(1 / 2 :: rat) * 20 \<le> (of_int 10 + 1) * (1 - 1 / 2 ^ 53)"
    by simp_all
  have ma: "movedHead (10, 10) (velocityRef ?a) = appleRef ?a"
    and mb: "movedHead (10, 10) (velocityRef example_agent) \<noteq> appleRef example_agent"
    and nb: "appleRef example_agent \<notin> set (snakeRef example_agent)"
    by (simp_all add: sa mh)
  from w1 d sn(1,2) s1 free have 1: "food s1 \<notin> set (snake s1)" by blast
  from w1 sn(1) s1 nf have 6: "food s1 = placeFood (1 / 2) (snake s1)" by blast
  from w1 d k iv have 2: "placeFood (1 / 2) INITIAL_SNAKE = free_cells INITIAL_SNAKE ! 198"
    by blast
  from w1 d k 2 have "(1 / 2 :: rat) * of_nat (length (free_cells INITIAL_SNAKE)) < of_nat 198 + 1"
    by blast
  then have 7: "(397 :: rat) / 2 < 199" by (simp add: len)
  from w1 sa(1) a1 ma have 3: "appleRef a1 = randomApple (1 / 2) (1 / 2)" by blast
  from w2 sa(4) a2 mb nb have 4: "appleRef a2 \<notin> set (snakeRef a2)" by blast
  from w1 d have 5: "in_board (randomApple (1 / 2) (1 / 2))" by blast
  from w1 d ij have 8: "randomApple (1 / 2) (1 / 2) = (10, 10)" by blast
  from 1 6 2 7 3 4 5 8 s1 a1 a2 show ?thesis by blast
qed

section \<open>Game over\<close>

lemma tick_collision:
  assumes s: "snake s = h # t" and c: "newHead h (currentDir s) \<in> set (snake s)"
  shows "tick r s = Inr (GameOver (handleGameOver (s\<lparr>dir := currentDir s, nextDir := None\<rparr>)))"
  unfolding tick_cases [OF s] Let_def using c by (rule if_P)

lemma update_collision:
  assumes s: "snakeRef a = g # u" and c: "movedHead g (velocityRef a) \<in> set (snakeRef a)"
  shows "update r1 r2 a = GameOver (reset r1 r2 (saveHighScore (loopScore a) (loopHighScore a) a))"
  unfolding update_cases [OF s] Let_def using c by (rule if_P)

lemma stored_high_setItem: "stored_high (setItem v st) = v"
  by (simp add: stored_high_def getItem_def setItem_def)

lemma tick_game_over:
  assumes "tick r s = Inr (GameOver s')"
  shows "s' = s\<lparr>dir := currentDir s, nextDir := None, running := False,
                highScore := max (highScore s) (score s),
                localStorage := setItem (max (highScore s) (score s)) (localStorage s)\<rparr>"
proof (cases "snake s")
  case Nil
  with assms show ?thesis by (simp add: tick_def)
next
  case (Cons h t)
  with assms show ?thesis
    by (auto simp: tick_cases Let_def handleGameOver_def split: if_splits)
qed

lemma tick_moved_store:
  assumes "tick r s = Inr (Moved s')"
  shows "localStorage s' = localStorage s \<and> highScore s' = highScore s"
proof (cases "snake s")
  case Nil
  with assms show ?thesis by (simp add: tick_def)
next
  case (Cons h t)
  with assms show ?thesis by (auto simp: tick_cases Let_def split: if_splits)
qed

lemma step_mirrors:
  assumes "mirrors s" and "step e s = Inr s'"
  shows "mirrors s' \<and> stored_high (localStorage s) \<le> stored_high (localStorage s')"
proof (cases e)
  case (Tick r)
  show ?thesis
  proof (cases "running s")
    case False
    with Tick assms show ?thesis by simp
  next
    case True
    with Tick assms obtain out where out: "tick r s = Inr out" "s' = state_of out"
      by (auto split: sum.splits)
    show ?thesis
    proof (cases out)
      case (GameOver x)
      with out tick_game_over [of r s x] assms(1) show ?thesis
        by (simp add: mirrors_def stored_high_setItem)
    next
      case (Moved x)
      with out tick_moved_store [of r s x] assms(1) show ?thesis
        by (simp add: mirrors_def)
    qed
  qed
next
  case (SetDir d)
  with assms show ?thesis by (auto simp: trySetDir_def mirrors_def)
next
  case Toggle
  with assms show ?thesis by (auto simp: toggleRunning_def mirrors_def)
next
  case (Reset r)
  with assms show ?thesis by (auto simp: resetGame_def mirrors_def)
qed

lemma run_mirrors:
  "mirrors s \<Longrightarrow> run evs s = Inr s' \<Longrightarrow>
   mirrors s' \<and> stored_high (localStorage s) \<le> stored_high (localStorage s')"
proof (induction evs arbitrary: s)
  case Nil
  then show ?case by simp
next
  case (Cons e evs)
  from Cons.prems(2) obtain s1 where s1: "step e s = Inr s1" "run evs s1 = Inr s'"
    by (auto split: sum.splits)
  from step_mirrors [OF Cons.prems(1) s1(1)]
  have m: "mirrors s1" and le: "stored_high (localStorage s) \<le> stored_high (localStorage s1)"
    by simp_all
  from Cons.IH [OF m s1(2)] le show ?case by simp
qed

lemma saveHighScore_mirrors: "agent_mirrors a \<Longrightarrow> agent_mirrors (saveHighScore sc hs a)"
  by (simp add: saveHighScore_def agent_mirrors_def Let_def stored_high_setItem)

lemma reset_mirrors: "agent_mirrors a \<Longrightarrow> agent_mirrors (reset r1 r2 a)"
  by (simp add: reset_def agent_mirrors_def)

lemma update_mirrors: "agent_mirrors a \<Longrightarrow> agent_mirrors (state_of (update r1 r2 a))"
proof (cases "snakeRef a")
  case Nil
  then show "agent_mirrors a \<Longrightarrow> ?thesis" by (simp add: update_def)
next
  case (Cons g u)
  assume "agent_mirrors a"
  then have "agent_mirrors (reset r1 r2 (saveHighScore (loopScore a) (loopHighScore a) a))"
    by (simp add: reset_mirrors saveHighScore_mirrors)
  with Cons \<open>agent_mirrors a\<close> show ?thesis
    by (auto simp: update_cases Let_def agent_mirrors_def)
qed

lemma restart_mirrors: "agent_mirrors a \<Longrightarrow> agent_mirrors (restart r1 r2 a)"
proof -
  assume "agent_mirrors a"
  then have "agent_mirrors (reset r1 r2 (saveHighScore (scoreSt a) (highScoreSt a) a))"
    by (simp add: reset_mirrors saveHighScore_mirrors)
  then show ?thesis by (simp add: restart_def Let_def agent_mirrors_def)
qed

lemma dispatch_mirrors: "agent_mirrors a \<Longrightarrow> agent_mirrors (dispatch e a)"
proof (cases e)
  case (Frame r1 r2)
  then show "agent_mirrors a \<Longrightarrow> ?thesis" by (simp add: update_mirrors)
next
  case (Key k)
  then show "agent_mirrors a \<Longrightarrow> ?thesis"
    by (simp add: handleKey_def toggle_def agent_mirrors_def Let_def)
next
  case PauseButton
  then show "agent_mirrors a \<Longrightarrow> ?thesis" by (simp add: toggle_def agent_mirrors_def)
next
  case (RestartButton r1 r2)
  then show "agent_mirrors a \<Longrightarrow> ?thesis" by (simp add: restart_mirrors)
qed

lemma agent_step_mirrors: "agent_mirrors a \<Longrightarrow> agent_mirrors (agent_step e a)"
  using dispatch_mirrors [of a e]
  by (simp add: agent_step_def persistHighScore_def agent_mirrors_def stored_high_setItem)

lemma agent_run_mirrors: "agent_mirrors a \<Longrightarrow> agent_mirrors (agent_run evs a)"
  by (induction evs arbitrary: a) (simp_all add: agent_step_mirrors)

lemma initial_agent_mirrors: "agent_mirrors (initial_agent st)"
  by (simp add: initial_agent_def agent_mirrors_def Let_def stored_high_setItem)

lemma initial_game_mirrors: "mirrors (initial_game r st)"
  by (simp add: initial_game_def mirrors_def)

text \<open>
  In the agent component the tick that detects the collision of the square snake
  leaves a running game with the initial snake and score 0: it has reset the game.
\<close>

theorem collision_resets_agent:
  "terminal (update (1 / 2) (1 / 2) square_agent)
   \<and> snakeRef (state_of (update (1 / 2) (1 / 2) square_agent)) \<noteq> snakeRef square_agent
   \<and> scoreSt (state_of (update (1 / 2) (1 / 2) square_agent)) \<noteq> scoreSt square_agent
   \<and> runningSt (state_of (update (1 / 2) (1 / 2) square_agent))"
proof -
  have mh: "movedHead (4, 4) (0, 1) = (4, 5)"
    by (simp add: movedHead_def wrap_def ROWS_def CANVAS_SIZE_def SCALE_def)
  show ?thesis
    by (simp add: update_cases [where h = "(4, 4)" and t = "[(5, 4), (5, 5), (4, 5)]"]
        square_agent_def mh Let_def reset_def)
qed

text \<open>
  C1, as the code has it. In the chatgpt component a tick whose new head is a cell of the
  snake is terminal and atomic: \<^verbatim>\<open>running\<close> becomes false, the snake, the score, the
  speed and the food are those of before the tick (only the queued direction is taken
  over), the high score becomes the maximum of the high score and the score, so it
  changes only when the score exceeded it, and that value is written to the store. In
  the agent component such a tick does not leave a terminated state: it resets the game
  in the same tick, to the snake \<open>[(10, 10)]\<close> moving right, score 0, speed 8, a new
  apple, running. (What that tick does to the agent's high score is the subject of C8.)
\<close>

theorem collision_is_terminal:
  "(snake s = h # t \<and> newHead h (currentDir s) \<in> set (snake s) \<longrightarrow>
      (\<exists>s'. tick r s = Inr (GameOver s')
         \<and> s' = s\<lparr>dir := currentDir s, nextDir := None, running := False,
                   highScore := max (highScore s) (score s),
                   localStorage := setItem (max (highScore s) (score s)) (localStorage s)\<rparr>
         \<and> \<not> running s' \<and> snake s' = snake s \<and> score s' = score s \<and> speed s' = speed s
         \<and> food s' = food s
         \<and> (highScore s' \<noteq> highScore s \<longrightarrow> highScore s < score s \<and> highScore s' = score s)
         \<and> stored_high (localStorage s') = highScore s'))
   \<and> (snakeRef a = g # u \<and> movedHead g (velocityRef a) \<in> set (snakeRef a) \<longrightarrow>
      (\<exists>a'. update r1 r2 a = GameOver a'
         \<and> snakeRef a' = [(10, 10)] \<and> velocityRef a' = (1, 0)
         \<and> appleRef a' = randomApple r1 r2 \<and> scoreRef a' = 0 \<and> scoreSt a' = 0
         \<and> speedRef a' = 8 \<and> runningSt a'))"
proof (intro conjI impI)
  assume a: "snake s = h # t \<and> newHead h (currentDir s) \<in> set (snake s)"
  define s' where "s' = s\<lparr>dir := currentDir s, nextDir := None, running := False,
               highScore := max (highScore s) (score s),
               localStorage := setItem (max (highScore s) (score s)) (localStorage s)\<rparr>"
  from a have "tick r s = Inr (GameOver (handleGameOver (s\<lparr>dir := currentDir s, nextDir := None\<rparr>)))"
    using tick_collision by blast
  then have 1: "tick r s = Inr (GameOver s')"
    by (simp add: handleGameOver_def Let_def s'_def)
  have 2: "\<not> running s'" "snake s' = snake s" "score s' = score s" "speed s' = speed s"
    "food s' = food s"
    by (simp_all add: s'_def)
  have 3: "stored_high (localStorage s') = highScore s'"
    by (simp add: s'_def stored_high_setItem)
  have "highScore s' = max (highScore s) (score s)" by (simp add: s'_def)
  then have 4: "highScore s' \<noteq> highScore s \<longrightarrow> highScore s < score s \<and> highScore s' = score s"
    by linarith
  from 1 2 3 4 s'_def show "\<exists>s'. tick r s = Inr (GameOver s')
         \<and> s' = s\<lparr>dir := currentDir s, nextDir := None, running := False,
                   highScore := max (highScore s) (score s),
                   localStorage := setItem (max (highScore s) (score s)) (localStorage s)\<rparr>
         \<and> \<not> running s' \<and> snake s' = snake s \<and> score s' = score s \<and> speed s' = speed s
         \<and> food s' = food s
         \<and> (highScore s' \<noteq> highScore s \<longrightarrow> highScore s < score s \<and> highScore s' = score s)
         \<and> stored_high (localStorage s') = highScore s'"
    by blast
next
  assume "snakeRef a = g # u \<and> movedHead g (velocityRef a) \<in> set (snakeRef a)"
  then have "update r1 r2 a = GameOver (reset r1 r2 (saveHighScore (loopScore a) (loopHighScore a) a))"
    using update_collision by blast
  then show "\<exists>a'. update r1 r2 a = GameOver a'
         \<and> snakeRef a' = [(10, 10)] \<and> velocityRef a' = (1, 0)
         \<and> appleRef a' = randomApple r1 r2 \<and> scoreRef a' = 0 \<and> scoreSt a' = 0
         \<and> speedRef a' = 8 \<and> runningSt a'"
    by (simp add: reset_def)
qed

text \<open>The witness: the square snake of each component runs into its tail.\<close>

theorem collision_is_terminal_witness:
  "(\<exists>s'. tick (1 / 2) square_game = Inr (GameOver s') \<and> \<not> running s'
        \<and> snake s' = [(4, 4), (5, 4), (5, 5), (4, 5)] \<and> score s' = 1 \<and> highScore s' = 5)
   \<and> (\<exists>a'. update (1 / 2) (1 / 2) square_agent = GameOver a'
        \<and> snakeRef a' = [(10, 10)] \<and> velocityRef a' = (1, 0) \<and> appleRef a' = (10, 10)
        \<and> scoreSt a' = 0 \<and> speedRef a' = 8 \<and> runningSt a')"
proof -
  have nh: "newHead (4, 4) (currentDir square_game) \<in> set (snake square_game)"
    by (simp add: newHead_mod currentDir_def square_game_def GRID_COLS_def GRID_ROWS_def)
  have mh: "movedHead (4, 4) (velocityRef square_agent) \<in> set (snakeRef square_agent)"
    by (simp add: movedHead_def wrap_def square_agent_def ROWS_def CANVAS_SIZE_def SCALE_def)
  have ra: "randomApple (1 / 2) (1 / 2) = (10, 10)"
    by code_simp
  have sg: "snake square_game = (4, 4) # [(5, 4), (5, 5), (4, 5)]"
    by (simp add: square_game_def)
  have sa: "snakeRef square_agent = (4, 4) # [(5, 4), (5, 5), (4, 5)]"
    by (simp add: square_agent_def)
  note w = collision_is_terminal [where s = square_game and h = "(4, 4)"
      and t = "[(5, 4), (5, 5), (4, 5)]" and r = "1 / 2" and a = square_agent and g = "(4, 4)"
      and u = "[(5, 4), (5, 5), (4, 5)]" and ?r1.0 = "1 / 2" and ?r2.0 = "1 / 2"]
  from w sg nh obtain s' where s': "tick (1 / 2) square_game = Inr (GameOver s')"
    "\<not> running s'" "snake s' = snake square_game" "score s' = score square_game"
    "highScore s' \<noteq> highScore square_game \<longrightarrow> highScore square_game < score square_game"
    by blast
  have "highScore s' = 5"
    using s'(5) by (simp add: square_game_def)
  with s' have 1: "\<exists>s'. tick (1 / 2) square_game = Inr (GameOver s') \<and> \<not> running s'
        \<and> snake s' = [(4, 4), (5, 4), (5, 5), (4, 5)] \<and> score s' = 1 \<and> highScore s' = 5"
    by (simp add: square_game_def)
  from w sa mh obtain a' where a': "update (1 / 2) (1 / 2) square_agent = GameOver a'"
    "snakeRef a' = [(10, 10)]" "velocityRef a' = (1, 0)"
    "appleRef a' = randomApple (1 / 2) (1 / 2)" "scoreSt a' = 0" "speedRef a' = 8" "runningSt a'"
    by blast
  then have 2: "\<exists>a'. update (1 / 2) (1 / 2) square_agent = GameOver a'
        \<and> snakeRef a' = [(10, 10)] \<and> velocityRef a' = (1, 0) \<and> appleRef a' = (10, 10)
        \<and> scoreSt a' = 0 \<and> speedRef a' = 8 \<and> runningSt a'"
    by (simp add: ra)
  from 1 2 show ?thesis by blast
qed

section \<open>The stored high score\<close>

text \<open>
  Both components read the stored high score on load, 0 when there is none. In the
  chatgpt component the high score in memory is the stored one along every run, a game
  over stores the maximum of the two, and the stored value never goes down.
\<close>

lemma load_reads_store:
  "highScore (initial_game r st) = stored_high st \<and> highScoreSt (initial_agent st) = stored_high st
   \<and> stored_high [] = 0"
  by (simp add: initial_game_def initial_agent_def Let_def stored_high_def getItem_def)

lemma chatgpt_store_never_lowered:
  assumes "run evs (initial_game r st) = Inr s"
  shows "highScore s = stored_high (localStorage s) \<and> stored_high st \<le> stored_high (localStorage s)"
  using run_mirrors [OF initial_game_mirrors assms] by (simp add: initial_game_def mirrors_def)

text \<open>
  The agent's guarded write does not lower the store as long as the high score it is
  compared with is at least the stored one, as it is for the Restart button, whose
  handler belongs to the current render.
\<close>

lemma saveHighScore_keeps_store:
  assumes "stored_high (storageSt a) \<le> hs"
  shows "stored_high (storageSt a) \<le> stored_high (storageSt (saveHighScore sc hs a))"
  using assms by (simp add: saveHighScore_def Let_def stored_high_setItem)

text \<open>
  C8 fails in the agent component. The animation loop keeps calling the \<^verbatim>\<open>update\<close> of
  the render that installed it, and it is installed in the first render, where
  \<^verbatim>\<open>highScore\<close> is still 0, and again only when \<^verbatim>\<open>running\<close> changes. Mounted with 5 in
  the store, the component shows the high score 5; the snake eats three apples and
  turns into its own tail. The game-over branch compares the score 3 with the 0 of its
  closure and writes 3 over the stored 5.
\<close>

theorem game_over_lowers_stored_high_score:
  "stored_high (storageSt (initial_agent [5])) = 5
   \<and> snakeRef (agent_run agent_square_play (initial_agent [5])) = [(4, 4), (5, 4), (5, 5), (4, 5)]
   \<and> velocityRef (agent_run agent_square_play (initial_agent [5])) = (0, 1)
   \<and> scoreSt (agent_run agent_square_play (initial_agent [5])) = 3
   \<and> highScoreSt (agent_run agent_square_play (initial_agent [5])) = 5
   \<and> stored_high (storageSt (agent_run agent_square_play (initial_agent [5]))) = 5
   \<and> loopHighScore (agent_run agent_square_play (initial_agent [5])) = 0
   \<and> terminal (update (1 / 2) (1 / 2) (agent_run agent_square_play (initial_agent [5])))
   \<and> highScoreSt (agent_run (agent_square_play @ [Frame (1 / 2) (1 / 2)]) (initial_agent [5])) = 3
   \<and> stored_high (storageSt (agent_run (agent_square_play @ [Frame (1 / 2) (1 / 2)])
        (initial_agent [5]))) = 3"
  by code_simp

section \<open>Reset\<close>

text \<open>
  C9. A reset returns the fresh initial state whatever the state before: the fixed
  initial snake, direction, speed, score 0, running, and newly placed food (in the
  chatgpt component a cell of the grid off the initial snake, in the agent component a
  cell of the board), and it leaves the high score and the store as they were. The
  agent's Restart button first saves the score as the high score when it exceeds it and
  then resets; since in every reachable state of the agent component the high score in
  memory is the stored one, the stored high score is never lowered by it.
\<close>

theorem reset_is_fresh:
  "resetGame r s =
     \<lparr>snake = INITIAL_SNAKE, dir = (1, 0), nextDir = None, food = placeFood r INITIAL_SNAKE,
      speed = INITIAL_SPEED, running = True, score = 0, highScore = highScore s,
      localStorage = localStorage s\<rparr>
   \<and> resetGame r s = (initial_game r st)\<lparr>highScore := highScore s, localStorage := localStorage s\<rparr>
   \<and> (draw r \<longrightarrow> in_grid (food (resetGame r s)) \<and> food (resetGame r s) \<notin> set (snake (resetGame r s)))
   \<and> reset r1 r2 a =
     \<lparr>snakeRef = [(10, 10)], velocityRef = (1, 0), appleRef = randomApple r1 r2, scoreRef = 0,
      speedRef = 8, scoreSt = 0, highScoreSt = highScoreSt a, runningSt = True,
      storageSt = storageSt a, loopScore = loopScore a, loopHighScore = loopHighScore a\<rparr>
   \<and> (draw r1 \<and> draw r2 \<longrightarrow> in_board (appleRef (reset r1 r2 a)))
   \<and> (restart r1 r2 a)\<lparr>loopScore := loopScore a, loopHighScore := loopHighScore a\<rparr>
       = reset r1 r2 (saveHighScore (scoreSt a) (highScoreSt a) a)
   \<and> (agent_mirrors a \<longrightarrow>
        agent_mirrors (restart r1 r2 a)
        \<and> stored_high (storageSt a) \<le> stored_high (storageSt (restart r1 r2 a)))
   \<and> agent_mirrors (agent_run aevs (initial_agent st))"
proof (intro conjI impI)
  show "resetGame r s =
     \<lparr>snake = INITIAL_SNAKE, dir = (1, 0), nextDir = None, food = placeFood r INITIAL_SNAKE,
      speed = INITIAL_SPEED, running = True, score = 0, highScore = highScore s,
      localStorage = localStorage s\<rparr>"
    by (simp add: resetGame_def)
next
  show "resetGame r s = (initial_game r st)\<lparr>highScore := highScore s, localStorage := localStorage s\<rparr>"
    by (simp add: resetGame_def initial_game_def)
next
  assume d: "draw r"
  then show "in_grid (food (resetGame r s))"
    by (simp add: resetGame_def placeFood_in_grid)
  have "\<exists>c. in_grid c \<and> c \<notin> set INITIAL_SNAKE"
    by (rule exI [of _ "(0, 0)"]) (simp add: in_grid_def INITIAL_SNAKE_def GRID_COLS_def GRID_ROWS_def)
  then have "free_cells INITIAL_SNAKE \<noteq> []" unfolding free_cells_empty by blast
  with d have "placeFood r INITIAL_SNAKE \<in> set (free_cells INITIAL_SNAKE)"
    by (rule placeFood_free)
  then show "food (resetGame r s) \<notin> set (snake (resetGame r s))"
    by (simp add: resetGame_def set_free_cells)
next
  show "reset r1 r2 a =
     \<lparr>snakeRef = [(10, 10)], velocityRef = (1, 0), appleRef = randomApple r1 r2, scoreRef = 0,
      speedRef = 8, scoreSt = 0, highScoreSt = highScoreSt a, runningSt = True,
      storageSt = storageSt a, loopScore = loopScore a, loopHighScore = loopHighScore a\<rparr>"
    by (simp add: reset_def)
next
  assume "draw r1 \<and> draw r2"
  then show "in_board (appleRef (reset r1 r2 a))"
    by (simp add: reset_def randomApple_in_board)
next
  show "(restart r1 r2 a)\<lparr>loopScore := loopScore a, loopHighScore := loopHighScore a\<rparr>
       = reset r1 r2 (saveHighScore (scoreSt a) (highScoreSt a) a)"
    by (simp add: restart_def reset_def saveHighScore_def Let_def)
next
  assume "agent_mirrors a"
  then show "agent_mirrors (restart r1 r2 a)" by (rule restart_mirrors)
next
  assume "agent_mirrors a"
  then show "stored_high (storageSt a) \<le> stored_high (storageSt (restart r1 r2 a))"
    by (simp add: restart_def reset_def saveHighScore_def Let_def agent_mirrors_def
        stored_high_setItem)
next
  show "agent_mirrors (agent_run aevs (initial_agent st))"
    by (simp add: agent_run_mirrors initial_agent_mirrors)
qed

text \<open>The witness: resetting the two square-snake states, whose stored high score is 5.\<close>

theorem reset_is_fresh_witness:
  "resetGame (1 / 2) square_game = (initial_game (1 / 2) [])\<lparr>highScore := 5, localStorage := [5]\<rparr>
   \<and> in_grid (food (resetGame (1 / 2) square_game))
   \<and> food (resetGame (1 / 2) square_game) \<notin> set (snake (resetGame (1 / 2) square_game))
   \<and> in_board (appleRef (reset (1 / 2) (1 / 2) square_agent))
   \<and> agent_mirrors (restart (1 / 2) (1 / 2) square_agent)
   \<and> 5 \<le> stored_high (storageSt (restart (1 / 2) (1 / 2) square_agent))"
proof -
  have d: "draw (1 / 2)" by code_simp
  have m: "agent_mirrors square_agent" "stored_high (storageSt square_agent) = 5"
    by (simp_all add: agent_mirrors_def square_agent_def stored_high_def getItem_def)
  have g: "highScore square_game = 5" "localStorage square_game = [5]"
    by (simp_all add: square_game_def)
  note w = reset_is_fresh [where r = "1 / 2" and s = square_game and st = "[]" and ?r1.0 = "1 / 2"
      and ?r2.0 = "1 / 2" and a = square_agent and aevs = "[]"]
  from w have "resetGame (1 / 2) square_game
      = (initial_game (1 / 2) [])\<lparr>highScore := highScore square_game,
          localStorage := localStorage square_game\<rparr>"
    by blast
  then have 1: "resetGame (1 / 2) square_game
      = (initial_game (1 / 2) [])\<lparr>highScore := 5, localStorage := [5]\<rparr>"
    by (simp only: g)
  from w d have 2: "in_grid (food (resetGame (1 / 2) square_game))"
    "food (resetGame (1 / 2) square_game) \<notin> set (snake (resetGame (1 / 2) square_game))"
    "in_board (appleRef (reset (1 / 2) (1 / 2) square_agent))"
    by blast+
  from w m(1) have 3: "agent_mirrors (restart (1 / 2) (1 / 2) square_agent)"
    "stored_high (storageSt square_agent) \<le> stored_high (storageSt (restart (1 / 2) (1 / 2) square_agent))"
    by blast+
  from 1 2 3 m(2) show ?thesis by simp
qed

section \<open>Direction changes\<close>

text \<open>
  The chatgpt component compares every request with the direction of the last tick
  and queues it: a request for the opposite direction changes nothing, and whatever
  requests arrive between two ticks, the second tick does not move opposite to the
  first.
\<close>

lemma trySetDir_rejects: "trySetDir (negation (dir s)) s = s"
  by (simp add: trySetDir_def negation_def)

lemma trySetDir_queues: "d \<noteq> negation (dir s) \<Longrightarrow> trySetDir d s = s\<lparr>nextDir := Some d\<rparr>"
  by (auto simp: trySetDir_def negation_def prod_eq_iff)

lemma requests_never_reverse:
  assumes "nextDir s \<noteq> Some (negation (dir s))"
  shows "dir (fold trySetDir ds s) = dir s
    \<and> nextDir (fold trySetDir ds s) \<noteq> Some (negation (dir s))"
  using assms
proof (induction ds arbitrary: s)
  case Nil
  then show ?case by simp
next
  case (Cons d ds)
  have "dir (trySetDir d s) = dir s" by (simp add: trySetDir_def)
  moreover have "nextDir (trySetDir d s) \<noteq> Some (negation (dir s))"
    using Cons.prems by (cases "d = negation (dir s)") (simp_all add: trySetDir_rejects trySetDir_queues)
  ultimately show ?case using Cons.IH [of "trySetDir d s"] by simp
qed

lemma tick_sets_dir:
  assumes "tick r s = Inr out"
  shows "dir (state_of out) = currentDir s \<and> nextDir (state_of out) = None"
proof (cases "snake s")
  case Nil
  with assms show ?thesis by (simp add: tick_def)
next
  case (Cons h t)
  with assms show ?thesis
    by (auto simp: tick_cases Let_def handleGameOver_def split: if_splits)
qed

lemma no_instant_reversal_chatgpt:
  assumes "tick r s = Inr out" and "unit_dir (currentDir s)"
  shows "currentDir (fold trySetDir ds (state_of out)) \<noteq> negation (currentDir s)"
proof -
  from tick_sets_dir [OF assms(1)]
  have d: "dir (state_of out) = currentDir s" and n: "nextDir (state_of out) = None" by simp_all
  from n requests_never_reverse [of "state_of out" ds] d
  have r: "dir (fold trySetDir ds (state_of out)) = currentDir s"
    "nextDir (fold trySetDir ds (state_of out)) \<noteq> Some (negation (currentDir s))"
    by simp_all
  have "currentDir s \<noteq> negation (currentDir s)"
    using assms(2) by (auto simp: unit_dir_def negation_def)
  with r show ?thesis
    by (cases "nextDir (fold trySetDir ds (state_of out))") (simp_all add: currentDir_def)
qed

text \<open>
  The agent component also ignores a request for the opposite of its velocity, and
  takes any other request at once.
\<close>

lemma handleKey_rejects:
  assumes "unit_dir (velocityRef a)" and "key_dir k = Some (negation (velocityRef a))"
  shows "handleKey k a = a"
  using assms
  by (cases k) (auto simp: key_dir_def negation_def unit_dir_def handleKey_def Let_def)

lemma handleKey_accepts:
  assumes "unit_dir (velocityRef a)" and "key_dir k = Some d" and "d \<noteq> negation (velocityRef a)"
  shows "handleKey k a = a\<lparr>velocityRef := d\<rparr>"
  using assms
  by (cases k) (auto simp: key_dir_def negation_def unit_dir_def handleKey_def Let_def)

text \<open>
  C3 fails in the agent component. \<^verbatim>\<open>handleKey\<close> compares a request with
  \<^verbatim>\<open>velocityRef\<close>, which the previous request of the same frame has already changed.
  The mounted component goes up and then left to its first apple; its snake lies on
  \<open>(5, 5)\<close>, \<open>(6, 5)\<close> and the last tick moved it left. The keys Up and Right before
  the next frame leave the velocity \<open>(1, 0)\<close>, the opposite of \<open>(-1, 0)\<close>, and the
  next tick runs the head into the second cell of the snake.
\<close>

theorem agent_instant_reversal:
  "snakeRef (agent_run approach (initial_agent [])) = [(5, 5), (6, 5)]
   \<and> velocityRef (agent_run approach (initial_agent [])) = (-1, 0)
   \<and> velocityRef (handleKey ArrowRight (handleKey ArrowUp (agent_run approach (initial_agent []))))
       = negation (-1, 0)
   \<and> terminal (update (1 / 2) (1 / 2)
        (handleKey ArrowRight (handleKey ArrowUp (agent_run approach (initial_agent [])))))"
  by code_simp

end
